theory Spec2Isabelle
  imports Complex_Main "HOL-Library.Word" "HOL-Library.Log_Nat"
begin

section \<open>Game Center performance monitoring module\<close>

text \<open>
  A shallow embedding of the performance monitoring module (the Rust source with the
  structures \<open>PerformanceMetrics\<close>, \<open>FrameTimeTracker\<close>, \<open>PerformanceMonitor\<close> and
  \<open>LatencyTracker\<close>).

  Conventions of the embedding:
  \<^item> an \<open>f64\<close> is a \<open>real\<close>; infinities and NaN are not modelled. The arithmetic of
    floats is exact, except in the index of the percentile, where the rounding of the
    product selects the element: there every operation rounds to the nearest \<open>f64\<close>,
    ties to even (\<open>f64_rnd\<close>);
  \<^item> a \<open>u8\<close>, \<open>u32\<close>, \<open>u64\<close> is a word of that width, whose \<open>+\<close>, \<open>-\<close> and \<open>*\<close>
    wrap around as in a build without overflow checks; where a result depends on it, a
    second definition with the suffix \<open>_checked\<close> gives the build with overflow checks,
    in which an overflow is a panic;
  \<^item> a \<open>usize\<close> that is a length or an index is a \<open>nat\<close>;
  \<^item> an \<open>Instant\<close> is a \<open>nat\<close>, the nanoseconds since an arbitrary origin, and a
    \<open>Duration\<close> is a \<open>nat\<close> of nanoseconds; every read of the clock is an argument of
    the function that reads it;
  \<^item> a method taking \<open>&mut self\<close> takes the state and returns the new one; a method
    taking \<open>&self\<close> is a function of the state;
  \<^item> a panic is a value: a function that can panic returns \<open>panic + 'a\<close>.
\<close>

subsection \<open>Primitive operations\<close>

type_synonym u8 = "8 word"
type_synonym u32 = "32 word"
type_synonym u64 = "64 word"

datatype panic = IndexOutOfBounds | ArithmeticOverflow

text \<open>\<open>Instant::duration_since\<close> saturates to the zero duration when the argument is later.\<close>

definition duration_since :: "nat \<Rightarrow> nat \<Rightarrow> nat" where
  "duration_since now earlier = now - earlier"

definition as_secs_f64 :: "nat \<Rightarrow> real" where
  "as_secs_f64 d = real d / 1000000000"

definition from_millis :: "u64 \<Rightarrow> nat" where
  "from_millis ms = unat ms * 1000000"

definition as_millis :: "nat \<Rightarrow> nat" where
  "as_millis d = d div 1000000"

text \<open>\<open>x as u8\<close> for a float: truncation towards zero, saturating at 0 and at 255.\<close>

definition f64_as_u8 :: "real \<Rightarrow> u8" where
  "f64_as_u8 x = (if x < 0 then 0 else if 255 \<le> x then 255 else word_of_int \<lfloor>x\<rfloor>)"

text \<open>\<open>f64::round\<close>: to the nearest integer, halves away from zero.\<close>

definition f64_round :: "real \<Rightarrow> int" where
  "f64_round x = (if 0 \<le> x then \<lfloor>x + 1 / 2\<rfloor> else - \<lfloor>- x + 1 / 2\<rfloor>)"

text \<open>\<open>x as usize\<close> for a float that is already integral: saturating at 0.\<close>

definition f64_as_usize :: "int \<Rightarrow> nat" where
  "f64_as_usize i = nat i"

text \<open>\<open>Ord::clamp\<close> on \<open>u8\<close>.\<close>

definition clamp_u8 :: "u8 \<Rightarrow> u8 \<Rightarrow> u8 \<Rightarrow> u8" where
  "clamp_u8 x lo hi = (if x < lo then lo else if hi < x then hi else x)"

text \<open>The arithmetic of a build with overflow checks.\<close>

definition checked_add :: "u8 \<Rightarrow> u8 \<Rightarrow> panic + u8" where
  "checked_add a b = (if unat a + unat b < 256 then Inr (a + b) else Inl ArithmeticOverflow)"

definition checked_sub :: "u8 \<Rightarrow> u8 \<Rightarrow> panic + u8" where
  "checked_sub a b = (if unat b \<le> unat a then Inr (a - b) else Inl ArithmeticOverflow)"

text \<open>
  \<open>v.push(x); if v.len() > cap { v.remove(0); }\<close>: the update of every bounded buffer of
  the module. \<open>remove(0)\<close> is applied to a vector that holds \<open>x\<close>, so it never panics.
\<close>

definition push_bounded :: "nat \<Rightarrow> 'a list \<Rightarrow> 'a \<Rightarrow> 'a list" where
  "push_bounded cap v x = (let v' = v @ [x] in if length v' > cap then tl v' else v')"

text \<open>\<open>iter().sum::<f64>() / len() as f64\<close>, guarded by \<open>is_empty()\<close>.\<close>

definition mean :: "real list \<Rightarrow> real" where
  "mean xs = (if xs = [] then 0 else sum_list xs / real (length xs))"

text \<open>
  Rounding to \<open>f64\<close>. A finite \<open>f64\<close> is an integer multiple of 2 to the power -1074 whose
  significand has at most 53 bits. \<open>f64_shift x\<close> is the number of bits that the
  magnitude of \<open>x\<close>, counted in units of 2 to the power -1074, has beyond 53;
  \<open>f64_ulp x\<close> is the distance of the floats around \<open>x\<close>, and \<open>f64_rnd x\<close> is the float
  nearest to \<open>x\<close>, the one with the even significand when two are equally near.
  Overflow to infinity is not modelled.
\<close>

definition round_half_even :: "real \<Rightarrow> int" where
  "round_half_even y =
     (let n = \<lfloor>y\<rfloor>; r = y - real_of_int n
      in if r < 1 / 2 then n else if 1 / 2 < r then n + 1 else if even n then n else n + 1)"

definition f64_shift :: "real \<Rightarrow> nat" where
  "f64_shift x = nat (bitlen \<lfloor>\<bar>x\<bar> * 2 ^ 1074\<rfloor> - 53)"

definition f64_ulp :: "real \<Rightarrow> real" where
  "f64_ulp x = 2 ^ f64_shift x / 2 ^ 1074"

definition f64_rnd :: "real \<Rightarrow> real" where
  "f64_rnd x = sgn x * real_of_int (round_half_even (\<bar>x\<bar> / f64_ulp x)) * f64_ulp x"

definition f64_div :: "real \<Rightarrow> real \<Rightarrow> real" where
  "f64_div a b = f64_rnd (a / b)"

definition f64_mul :: "real \<Rightarrow> real \<Rightarrow> real" where
  "f64_mul a b = f64_rnd (a * b)"

text \<open>\<open>n as f64\<close> for a \<open>usize\<close>.\<close>

definition usize_as_f64 :: "nat \<Rightarrow> real" where
  "usize_as_f64 n = f64_rnd (real n)"

text \<open>
  The percentile of \<open>percentile_frame_time\<close> and \<open>percentile_latency\<close>, whose bodies are
  the same: \<open>sorted[index]\<close> panics when the index is not below the length. The index is
  \<open>((percentile / 100.0) * (sorted.len() - 1) as f64).round() as usize\<close>, with the division
  and the product rounded to \<open>f64\<close>.
\<close>

definition percentile :: "real list \<Rightarrow> real \<Rightarrow> panic + real" where
  "percentile xs p =
     (if xs = [] then Inr 0
      else let sorted = sort xs;
               index = f64_as_usize (f64_round
                         (f64_mul (f64_div p 100) (usize_as_f64 (length sorted - 1))))
           in if index < length sorted then Inr (sorted ! index) else Inl IndexOutOfBounds)"

subsection \<open>Frame time tracker\<close>

record FrameTimeTracker =
  frame_times :: "real list"
  max_samples :: nat
  last_frame_time :: nat
  frame_count :: u32
  fps_update_interval :: nat
  last_fps_update :: nat
  current_fps :: real

definition FrameTimeTracker_new :: "nat \<Rightarrow> nat \<Rightarrow> nat \<Rightarrow> FrameTimeTracker" where
  "FrameTimeTracker_new cap now1 now2 =
     \<lparr> frame_times = [], max_samples = cap, last_frame_time = now1, frame_count = 0,
       fps_update_interval = from_millis 500, last_fps_update = now2, current_fps = 0 \<rparr>"

definition record_frame :: "nat \<Rightarrow> FrameTimeTracker \<Rightarrow> real \<times> FrameTimeTracker" where
  "record_frame now t =
     (let elapsed = duration_since now (last_frame_time t);
          frame_time_ms = as_secs_f64 elapsed * 1000;
          t1 = t \<lparr> frame_times := push_bounded (max_samples t) (frame_times t) frame_time_ms,
                   last_frame_time := now,
                   frame_count := frame_count t + 1 \<rparr>;
          t2 = (if duration_since now (last_fps_update t1) \<ge> fps_update_interval t1
                then let elapsed_secs = as_secs_f64 (duration_since now (last_fps_update t1))
                     in t1 \<lparr> current_fps := real (unat (frame_count t1)) / elapsed_secs,
                             frame_count := 0,
                             last_fps_update := now \<rparr>
                else t1)
      in (frame_time_ms, t2))"

definition average_frame_time :: "FrameTimeTracker \<Rightarrow> real" where
  "average_frame_time t = mean (frame_times t)"

definition percentile_frame_time :: "FrameTimeTracker \<Rightarrow> real \<Rightarrow> panic + real" where
  "percentile_frame_time t p = percentile (frame_times t) p"

definition detect_frame_drops :: "FrameTimeTracker \<Rightarrow> real \<Rightarrow> nat list" where
  "detect_frame_drops t threshold_ms =
     map fst (filter (\<lambda>(i, x). x > threshold_ms) (enumerate 0 (frame_times t)))"

text \<open>
  A sequence of \<open>record_frame\<close> calls, one per clock reading: the frame times returned,
  in the order of the calls, and the tracker after the last call.
\<close>

fun record_frames :: "nat list \<Rightarrow> FrameTimeTracker \<Rightarrow> real list \<times> FrameTimeTracker" where
  "record_frames [] t = ([], t)"
| "record_frames (now # nows) t =
     (let (ft, t') = record_frame now t;
          (fts, t'') = record_frames nows t'
      in (ft # fts, t''))"

subsection \<open>Network latency tracker\<close>

record LatencyTracker =
  ping_history :: "real list"
  jitter_history :: "real list"
  packet_loss :: u32
  packets_sent :: u32
  packets_received :: u32
  lt_max_history :: nat

definition LatencyTracker_new :: "nat \<Rightarrow> LatencyTracker" where
  "LatencyTracker_new cap =
     \<lparr> ping_history = [], jitter_history = [], packet_loss = 0, packets_sent = 0,
       packets_received = 0, lt_max_history = cap \<rparr>"

definition record_ping :: "real \<Rightarrow> LatencyTracker \<Rightarrow> LatencyTracker" where
  "record_ping latency_ms t =
     (let t1 = t \<lparr> packets_received := packets_received t + 1,
                   ping_history := push_bounded (lt_max_history t) (ping_history t) latency_ms \<rparr>;
          ph = ping_history t1
      in if length ph \<ge> 2
         then let jitter = \<bar>ph ! (length ph - 1) - ph ! (length ph - 2)\<bar>
              in t1 \<lparr> jitter_history :=
                        push_bounded (lt_max_history t1) (jitter_history t1) jitter \<rparr>
         else t1)"

definition record_packet_loss :: "LatencyTracker \<Rightarrow> LatencyTracker" where
  "record_packet_loss t = t \<lparr> packet_loss := packet_loss t + 1 \<rparr>"

definition increment_sent :: "LatencyTracker \<Rightarrow> LatencyTracker" where
  "increment_sent t = t \<lparr> packets_sent := packets_sent t + 1 \<rparr>"

definition average_latency :: "LatencyTracker \<Rightarrow> real" where
  "average_latency t = mean (ping_history t)"

definition average_jitter :: "LatencyTracker \<Rightarrow> real" where
  "average_jitter t = mean (jitter_history t)"

definition packet_loss_rate :: "LatencyTracker \<Rightarrow> real" where
  "packet_loss_rate t =
     (if packets_sent t = 0 then 0
      else real (unat (packet_loss t)) / real (unat (packets_sent t)) * 100)"

definition percentile_latency :: "LatencyTracker \<Rightarrow> real \<Rightarrow> panic + real" where
  "percentile_latency t p = percentile (ping_history t) p"

text \<open>
  The three sub-scores of \<open>quality_score\<close>, each as a function of its metric. The source
  writes the integer literals \<open>50\<close>, \<open>100\<close>, \<open>200\<close>, \<open>10\<close>, \<open>30\<close> and \<open>5\<close> where a float is
  compared or subtracted; they are read as the floats of the same value. The last branch
  of the latency score is written \<open>(200 - l) / 150.0 * 30.0 as u8\<close>; it is read as its two
  sibling branches are written, with the cast applied to the whole product.
\<close>

definition latency_score :: "real \<Rightarrow> u8" where
  "latency_score l =
     (if l < 50 then 40
      else if l < 100 then 30 + f64_as_u8 ((100 - l) / 50 * 10)
      else f64_as_u8 ((200 - l) / 150 * 30))"

definition jitter_score :: "real \<Rightarrow> u8" where
  "jitter_score j =
     (if j < 10 then 30
      else if j < 30 then 20 + f64_as_u8 ((30 - j) / 20 * 10)
      else f64_as_u8 (30 / j * 20))"

definition loss_score :: "real \<Rightarrow> u8" where
  "loss_score r =
     (if r < 1 then 30
      else if r < 5 then 20 + f64_as_u8 ((5 - r) / 4 * 10)
      else f64_as_u8 (5 / r * 20))"

definition quality_score :: "LatencyTracker \<Rightarrow> u8" where
  "quality_score t =
     clamp_u8 (latency_score (average_latency t) + jitter_score (average_jitter t)
               + loss_score (packet_loss_rate t)) 0 100"

definition quality_score_checked :: "LatencyTracker \<Rightarrow> panic + u8" where
  "quality_score_checked t =
     (case checked_add (latency_score (average_latency t)) (jitter_score (average_jitter t)) of
        Inl e \<Rightarrow> Inl e
      | Inr s \<Rightarrow>
          (case checked_add s (loss_score (packet_loss_rate t)) of
             Inl e \<Rightarrow> Inl e
           | Inr s' \<Rightarrow> Inr (clamp_u8 s' 0 100)))"

text \<open>A sequence of \<open>record_ping\<close> calls, one per latency sample.\<close>

definition record_pings :: "real list \<Rightarrow> LatencyTracker \<Rightarrow> LatencyTracker" where
  "record_pings ps t = foldl (\<lambda>s p. record_ping p s) t ps"

subsection \<open>Performance monitor\<close>

record PerformanceMetrics =
  timestamp :: u64
  cpu_usage :: real
  memory_usage :: real
  gpu_usage :: real
  frame_rate :: real
  frame_time_ms :: real
  render_time_ms :: real
  update_time_ms :: real
  input_latency_ms :: real
  network_latency_ms :: real

definition PerformanceMetrics_default :: PerformanceMetrics where
  "PerformanceMetrics_default =
     \<lparr> timestamp = 0, cpu_usage = 0, memory_usage = 0, gpu_usage = 0, frame_rate = 0,
       frame_time_ms = 0, render_time_ms = 0, update_time_ms = 0, input_latency_ms = 0,
       network_latency_ms = 0 \<rparr>"

record GamePerformanceProfile =
  game_id :: string
  average_fps :: real
  fps_variance :: real
  min_frame_time :: real
  max_frame_time :: real
  percentile_95_frame_time :: real
  total_playtime_ms :: u64
  frame_drops :: u32
  performance_score :: u8

record PerformanceMonitor =
  metrics :: PerformanceMetrics
  frame_tracker :: FrameTimeTracker
  sampling_rate :: nat
  last_sample :: nat
  history :: "PerformanceMetrics list"
  max_history :: nat

definition PerformanceMonitor_new ::
  "u64 \<Rightarrow> nat \<Rightarrow> nat \<Rightarrow> nat \<Rightarrow> nat \<Rightarrow> PerformanceMonitor" where
  "PerformanceMonitor_new sampling_rate_ms max_history_samples now1 now2 now3 =
     \<lparr> metrics = PerformanceMetrics_default,
       frame_tracker = FrameTimeTracker_new 300 now1 now2,
       sampling_rate = from_millis sampling_rate_ms,
       last_sample = now3,
       history = [],
       max_history = max_history_samples \<rparr>"

definition start_frame :: "nat \<Rightarrow> PerformanceMonitor \<Rightarrow> PerformanceMonitor" where
  "start_frame now m = m \<lparr> frame_tracker := snd (record_frame now (frame_tracker m)) \<rparr>"

definition end_frame :: "PerformanceMonitor \<Rightarrow> PerformanceMonitor" where
  "end_frame m =
     (let frame_time = average_frame_time (frame_tracker m)
      in m \<lparr> metrics := (metrics m) \<lparr> frame_time_ms := frame_time,
                                       frame_rate := current_fps (frame_tracker m) \<rparr> \<rparr>)"

text \<open>
  The placeholders of the source for the platform probes. \<open>sample\<close> below takes the
  results of the two probes as arguments, so that a probe with no data can be stated.
\<close>

definition sample_cpu_usage :: "real option" where
  "sample_cpu_usage = Some 45"

definition sample_memory_usage :: "real option" where
  "sample_memory_usage = Some 60"

text \<open>
  \<open>sample\<close>: \<open>now1\<close> is the clock read at the gate, \<open>millis\<close> the result of
  \<open>now_millis()\<close>, \<open>cpu\<close> and \<open>mem\<close> the results of the probes, \<open>now2\<close> the clock read
  that becomes \<open>last_sample\<close>.
\<close>

definition sample ::
  "nat \<Rightarrow> u64 \<Rightarrow> real option \<Rightarrow> real option \<Rightarrow> nat \<Rightarrow> PerformanceMonitor
     \<Rightarrow> PerformanceMetrics option \<times> PerformanceMonitor" where
  "sample now1 millis cpu mem now2 m =
     (if duration_since now1 (last_sample m) < sampling_rate m then (None, m)
      else
        let m1 = (metrics m) \<lparr> timestamp := millis,
                                frame_rate := current_fps (frame_tracker m),
                                frame_time_ms := average_frame_time (frame_tracker m) \<rparr>;
            m2 = (case cpu of Some c \<Rightarrow> m1 \<lparr> cpu_usage := c \<rparr> | None \<Rightarrow> m1);
            m3 = (case mem of Some c \<Rightarrow> m2 \<lparr> memory_usage := c \<rparr> | None \<Rightarrow> m2);
            snapshot = m3
        in (Some snapshot,
            m \<lparr> metrics := m3,
                history := push_bounded (max_history m) (history m) snapshot,
                last_sample := now2 \<rparr>))"

text \<open>\<open>f64::MAX\<close> and \<open>f64::MIN\<close>, the largest and the smallest finite float.\<close>

definition f64_MAX :: real where
  "f64_MAX = (2 ^ 53 - 1) * 2 ^ 971"

definition f64_MIN :: real where
  "f64_MIN = - f64_MAX"

definition variance :: "real list \<Rightarrow> real" where
  "variance values =
     (if length values < 2 then 0
      else let mu = sum_list values / real (length values);
               squared_diffs = sum_list (map (\<lambda>v. (v - mu) ^ 2) values)
           in squared_diffs / real (length values - 1))"

text \<open>
  The sub-scores of \<open>calculate_score\<close>. The integer literals \<open>60\<close> and \<open>30\<close> compared with
  the float \<open>fps\<close> are read as floats. The quotients and products inside the casts are
  exact here and in the sub-scores of \<open>quality_score\<close>: where the exact value is an
  integer, the value computed in \<open>f64\<close> can lie just below it and the cast then gives one
  less (a stability score of 29 instead of 30 at 16.67 ms).
\<close>

definition fps_score :: "real \<Rightarrow> u8" where
  "fps_score fps =
     (if fps \<ge> 60 then 40
      else if fps \<ge> 30 then 30 + f64_as_u8 ((fps - 30) / 30 * 10)
      else f64_as_u8 (fps / 30 * 30))"

definition stability_score :: "real \<Rightarrow> u8" where
  "stability_score avg_frame_time =
     (if avg_frame_time < 1667 / 100 then 30
      else if avg_frame_time < 3333 / 100
           then 20 + f64_as_u8 ((3333 / 100 - avg_frame_time) / (1666 / 100) * 10)
      else f64_as_u8 (3333 / 100 / avg_frame_time * 20))"

definition drop_penalty :: "nat \<Rightarrow> u8" where
  "drop_penalty n_drops = word_of_nat (min n_drops 10) * 3"

definition calculate_score :: "PerformanceMonitor \<Rightarrow> u8" where
  "calculate_score m =
     (let fps = current_fps (frame_tracker m);
          avg_frame_time = average_frame_time (frame_tracker m);
          n_drops = length (detect_frame_drops (frame_tracker m) (3333 / 100))
      in clamp_u8 (fps_score fps + stability_score avg_frame_time - drop_penalty n_drops)
           0 100)"

definition calculate_score_checked :: "PerformanceMonitor \<Rightarrow> panic + u8" where
  "calculate_score_checked m =
     (let fps = current_fps (frame_tracker m);
          avg_frame_time = average_frame_time (frame_tracker m);
          n_drops = length (detect_frame_drops (frame_tracker m) (3333 / 100))
      in case checked_add (fps_score fps) (stability_score avg_frame_time) of
           Inl e \<Rightarrow> Inl e
         | Inr s \<Rightarrow>
             (case checked_sub s (drop_penalty n_drops) of
                Inl e \<Rightarrow> Inl e
              | Inr d \<Rightarrow> Inr (clamp_u8 d 0 100)))"

definition calculate_profile :: "PerformanceMonitor \<Rightarrow> string \<Rightarrow> panic + GamePerformanceProfile" where
  "calculate_profile m gid =
     (let frame_times' = filter (\<lambda>t. t > 0) (map frame_time_ms (history m));
          fps_values = filter (\<lambda>f. f > 0) (map frame_rate (history m))
      in case percentile_frame_time (frame_tracker m) 95 of
           Inl e \<Rightarrow> Inl e
         | Inr p95 \<Rightarrow>
             Inr \<lparr> game_id = gid,
                   average_fps = (if fps_values \<noteq> []
                                  then sum_list fps_values / real (length fps_values) else 0),
                   fps_variance = variance fps_values,
                   min_frame_time = (if frame_times' \<noteq> []
                                     then foldl min f64_MAX frame_times' else 0),
                   max_frame_time = (if frame_times' \<noteq> []
                                     then foldl max f64_MIN frame_times' else 0),
                   percentile_95_frame_time = p95,
                   total_playtime_ms =
                     word_of_nat (length (history m)) * word_of_nat (as_millis (sampling_rate m)),
                   frame_drops =
                     word_of_nat (length (detect_frame_drops (frame_tracker m) (3333 / 100))),
                   performance_score = calculate_score m \<rparr>)"

text \<open>
  A sequence of \<open>sample\<close> calls, each with its clock readings and probe results; the
  results of the calls are dropped.
\<close>

type_synonym sample_input = "nat \<times> u64 \<times> real option \<times> real option \<times> nat"

definition samples :: "sample_input list \<Rightarrow> PerformanceMonitor \<Rightarrow> PerformanceMonitor" where
  "samples ins m =
     foldl (\<lambda>s (now1, millis, cpu, mem, now2). snd (sample now1 millis cpu mem now2 s)) m ins"

text \<open>
  The jitter values of a sequence of latency samples: the absolute differences of
  consecutive samples, in the order of the samples.
\<close>

fun jitters :: "real list \<Rightarrow> real list" where
  "jitters (a # b # xs) = \<bar>b - a\<bar> # jitters (b # xs)"
| "jitters _ = []"

text \<open>
  The performance score in the words of the specification: the sum of the FPS sub-score and
  the stability sub-score, less 3 points per dropped frame for at most 10 dropped frames,
  clamped to the interval from 0 to 100. The arithmetic is that of the integers.
\<close>

definition performance_score_spec :: "real \<Rightarrow> real \<Rightarrow> nat \<Rightarrow> int" where
  "performance_score_spec fps avg_frame_time n_drops =
     max 0 (min 100 (int (unat (fps_score fps)) + int (unat (stability_score avg_frame_time))
                     - 3 * int (min n_drops 10)))"

text \<open>
  Two monitors reached from a new one by \<open>start_frame\<close> calls. In the first, ten frames
  follow each other at 40 ms, so that the first FPS update (after 500 ms) has not happened.
  In the second, ten frames follow each other at 100 ms.
\<close>

definition scenario_slow_start :: PerformanceMonitor where
  "scenario_slow_start =
     foldl (\<lambda>m now. start_frame now m) (PerformanceMonitor_new 100 5 0 0 0)
       [40000000, 80000000, 120000000, 160000000, 200000000,
        240000000, 280000000, 320000000, 360000000, 400000000]"

definition scenario_stutter :: PerformanceMonitor where
  "scenario_stutter =
     foldl (\<lambda>m now. start_frame now m) (PerformanceMonitor_new 100 5 0 0 0)
       [100000000, 200000000, 300000000, 400000000, 500000000,
        600000000, 700000000, 800000000, 900000000, 1000000000]"

text \<open>A buffer of 26 samples.\<close>

definition scenario_samples :: "real list" where
  "scenario_samples =
     [1, 2, 3, 4, 5, 6, 7, 8, 9, 10, 11, 12, 13, 14, 15, 16, 17, 18, 19, 20, 21, 22, 23, 24,
      25, 26]"

section \<open>Properties\<close>

subsection \<open>Bounded buffers\<close>

lemma push_bounded_drop:
  "push_bounded N (drop (length h - N) h) x = drop (length (h @ [x]) - N) (h @ [x])"
proof (cases "length h < N")
  case True
  then show ?thesis by (simp add: push_bounded_def Let_def)
next
  case False
  then have le: "N \<le> length h" by simp
  have "tl (drop (length h - N) h @ [x]) = drop 1 (drop (length h - N) h @ [x])"
    by (simp only: One_nat_def drop_Suc drop_0)
  also have "\<dots> = drop 1 (drop (length h - N) (h @ [x]))"
    by simp
  also have "\<dots> = drop (Suc (length h) - N) (h @ [x])"
    using le by (simp add: Suc_diff_le del: drop_append)
  finally show ?thesis
    using le by (simp add: push_bounded_def Let_def)
qed

lemma length_push_bounded: "length v \<le> N \<Longrightarrow> length (push_bounded N v x) \<le> N"
  by (auto simp: push_bounded_def Let_def)

lemma max_samples_record_frame: "max_samples (snd (record_frame now t)) = max_samples t"
  by (simp add: record_frame_def Let_def)

lemma frame_times_record_frame:
  "frame_times (snd (record_frame now t)) =
     push_bounded (max_samples t) (frame_times t) (fst (record_frame now t))"
  by (simp add: record_frame_def Let_def)

lemma length_record_frames: "length (fst (record_frames nows t)) = length nows"
  by (induction nows arbitrary: t) (simp_all add: split_beta Let_def)

lemma record_frames_buffer:
  "frame_times t = drop (length h - max_samples t) h \<Longrightarrow>
   frame_times (snd (record_frames nows t)) =
     drop (length (h @ fst (record_frames nows t)) - max_samples t)
       (h @ fst (record_frames nows t))
   \<and> max_samples (snd (record_frames nows t)) = max_samples t"
proof (induction nows arbitrary: t h)
  case Nil
  then show ?case by simp
next
  case (Cons now nows)
  obtain ft t' where rf: "record_frame now t = (ft, t')"
    by (cases "record_frame now t")
  obtain fts t'' where rfs: "record_frames nows t' = (fts, t'')"
    by (cases "record_frames nows t'")
  have ms: "max_samples t' = max_samples t"
    using max_samples_record_frame [of now t] rf by simp
  have "frame_times t' = push_bounded (max_samples t) (frame_times t) ft"
    using frame_times_record_frame [of now t] rf by simp
  then have "frame_times t' = drop (length (h @ [ft]) - max_samples t') (h @ [ft])"
    using Cons.prems push_bounded_drop [of "max_samples t" h ft] ms by simp
  from Cons.IH [OF this] rfs ms rf show ?case by simp
qed

lemma record_pings_snoc: "record_pings (ps @ [p]) t = record_ping p (record_pings ps t)"
  by (simp add: record_pings_def)

lemma lt_max_history_record_ping: "lt_max_history (record_ping p t) = lt_max_history t"
  by (simp add: record_ping_def Let_def)

lemma lt_max_history_record_pings: "lt_max_history (record_pings ps t) = lt_max_history t"
proof (induction ps rule: rev_induct)
  case Nil
  then show ?case by (simp add: record_pings_def)
next
  case (snoc p ps)
  then show ?case by (simp add: record_pings_snoc lt_max_history_record_ping)
qed

lemma ping_history_record_ping:
  "ping_history (record_ping p t) = push_bounded (lt_max_history t) (ping_history t) p"
  by (simp add: record_ping_def Let_def)

lemma ping_history_record_pings:
  "ping_history (record_pings ps (LatencyTracker_new K)) = drop (length ps - K) ps"
proof (induction ps rule: rev_induct)
  case Nil
  then show ?case by (simp add: record_pings_def LatencyTracker_new_def)
next
  case (snoc p ps)
  have "lt_max_history (record_pings ps (LatencyTracker_new K)) = K"
    by (simp add: lt_max_history_record_pings LatencyTracker_new_def)
  then show ?case
    using snoc push_bounded_drop [of K ps p]
    by (simp add: record_pings_snoc ping_history_record_ping)
qed

lemma jitters_snoc: "ps \<noteq> [] \<Longrightarrow> jitters (ps @ [p]) = jitters ps @ [\<bar>p - last ps\<bar>]"
  by (induction ps rule: jitters.induct) auto

lemma jitter_history_record_ping:
  "jitter_history (record_ping p t) =
     (let ph = push_bounded (lt_max_history t) (ping_history t) p
      in if length ph \<ge> 2
         then push_bounded (lt_max_history t) (jitter_history t)
                \<bar>ph ! (length ph - 1) - ph ! (length ph - 2)\<bar>
         else jitter_history t)"
  by (simp add: record_ping_def Let_def)

lemma last_two_drop:
  assumes "ps \<noteq> []" "2 \<le> K"
  shows "(let ph = drop (length (ps @ [p]) - K) (ps @ [p]) in
          length ph \<ge> 2 \<and> ph ! (length ph - 1) = p \<and> ph ! (length ph - 2) = last ps)"
proof -
  let ?q = "ps @ [p]"
  let ?d = "length ?q - K"
  let ?ph = "drop ?d ?q"
  have len: "length ?ph = min (length ?q) K" by auto
  have l2: "2 \<le> length ?ph" using assms len by (cases ps) auto
  have dl: "?d + length ?ph = length ?q" by auto
  have a: "?ph ! (length ?ph - 1) = ?q ! (length ?q - 1)"
    using l2 dl by (subst nth_drop) (auto simp del: length_drop drop_append)
  have b: "?ph ! (length ?ph - 2) = ?q ! (length ?q - 2)"
    using l2 dl by (subst nth_drop) (auto simp del: length_drop drop_append)
  have c: "?q ! (length ?q - 1) = p" by simp
  have d: "?q ! (length ?q - 2) = last ps"
    using assms(1) by (simp add: nth_append last_conv_nth)
  show ?thesis unfolding Let_def using l2 a b c d by simp
qed

lemma jitter_history_record_pings:
  "jitter_history (record_pings ps (LatencyTracker_new K)) =
     (if 2 \<le> K then drop (length (jitters ps) - K) (jitters ps) else [])"
proof (induction ps rule: rev_induct)
  case Nil
  then show ?case by (simp add: record_pings_def LatencyTracker_new_def)
next
  case (snoc p ps)
  define t where "t = record_pings ps (LatencyTracker_new K)"
  define ph where "ph = drop (length (ps @ [p]) - K) (ps @ [p])"
  have K: "lt_max_history t = K"
    by (simp add: t_def lt_max_history_record_pings LatencyTracker_new_def)
  have ph: "push_bounded K (ping_history t) p = ph"
    unfolding ph_def t_def ping_history_record_pings by (rule push_bounded_drop)
  have step: "jitter_history (record_ping p t) =
      (if length ph \<ge> 2
       then push_bounded K (jitter_history t) \<bar>ph ! (length ph - 1) - ph ! (length ph - 2)\<bar>
       else jitter_history t)"
    unfolding jitter_history_record_ping K ph Let_def by (rule refl)
  have IH: "jitter_history t =
      (if 2 \<le> K then drop (length (jitters ps) - K) (jitters ps) else [])"
    unfolding t_def by (rule snoc)
  have goal: "jitter_history (record_pings (ps @ [p]) (LatencyTracker_new K)) =
      jitter_history (record_ping p t)"
    by (simp add: record_pings_snoc t_def)
  show ?case
  proof (cases "ps \<noteq> [] \<and> 2 \<le> K")
    case True
    then have l2: "ps \<noteq> []" "2 \<le> K" by auto
    from last_two_drop [OF l2, of p]
    have "length ph \<ge> 2" "ph ! (length ph - 1) = p" "ph ! (length ph - 2) = last ps"
      unfolding Let_def ph_def by blast+
    then have "jitter_history (record_ping p t) =
        push_bounded K (jitter_history t) \<bar>p - last ps\<bar>"
      using step by simp
    also have "\<dots> = drop (length (jitters ps @ [\<bar>p - last ps\<bar>]) - K)
        (jitters ps @ [\<bar>p - last ps\<bar>])"
      unfolding IH using l2(2) push_bounded_drop [of K "jitters ps" "\<bar>p - last ps\<bar>"] by simp
    finally show ?thesis
      unfolding goal using l2 by (simp add: jitters_snoc)
  next
    case False
    have "length ph = min (Suc (length ps)) K"
      unfolding ph_def by auto
    then have "length ph < 2"
      using False by (cases "ps = []") auto
    then have a: "jitter_history (record_ping p t) = jitter_history t"
      using step by simp
    have b: "jitters (ps @ [p]) = jitters ps" if "ps = []"
      using that by simp
    show ?thesis
      unfolding goal a IH using False b by auto
  qed
qed

text \<open>
  Claim C4. Starting from a new \<open>FrameTimeTracker\<close> of capacity \<open>N\<close>, after any sequence
  of \<open>record_frame\<close> calls the frame-time buffer holds at most \<open>N\<close> elements, and it is
  the list of the frame times returned by the calls without its first
  \<open>length nows - N\<close> elements: all of them while at most \<open>N\<close> frames were recorded, the
  \<open>N\<close> most recent ones, in the order of recording, afterwards. Starting from a new
  \<open>LatencyTracker\<close> of capacity \<open>K\<close>, the same holds of the ping buffer and the latency
  samples, and of the jitter buffer and the jitter values that were pushed (none when
  \<open>K < 2\<close>, since the ping buffer then never holds two samples).
\<close>

theorem bounded_fifo_buffers:
  "length (frame_times (snd (record_frames nows (FrameTimeTracker_new N c1 c2)))) \<le> N
   \<and> length (fst (record_frames nows (FrameTimeTracker_new N c1 c2))) = length nows
   \<and> frame_times (snd (record_frames nows (FrameTimeTracker_new N c1 c2))) =
       drop (length nows - N) (fst (record_frames nows (FrameTimeTracker_new N c1 c2)))
   \<and> length (ping_history (record_pings ps (LatencyTracker_new K))) \<le> K
   \<and> ping_history (record_pings ps (LatencyTracker_new K)) = drop (length ps - K) ps
   \<and> length (jitter_history (record_pings ps (LatencyTracker_new K))) \<le> K
   \<and> jitter_history (record_pings ps (LatencyTracker_new K)) =
       (if 2 \<le> K then drop (length (jitters ps) - K) (jitters ps) else [])"
proof -
  let ?t = "FrameTimeTracker_new N c1 c2"
  have init: "frame_times ?t = drop (length ([]::real list) - max_samples ?t) []"
    by (simp add: FrameTimeTracker_new_def)
  have N: "max_samples ?t = N"
    by (simp add: FrameTimeTracker_new_def)
  have buf: "frame_times (snd (record_frames nows ?t)) =
      drop (length nows - N) (fst (record_frames nows ?t))"
    using record_frames_buffer [OF init, of nows] by (simp add: N length_record_frames)
  have len: "length (frame_times (snd (record_frames nows ?t))) \<le> N"
    unfolding buf by (simp add: length_record_frames)
  have jl: "length (jitter_history (record_pings ps (LatencyTracker_new K))) \<le> K"
    unfolding jitter_history_record_pings by auto
  show ?thesis
    using buf len jl
    by (simp add: length_record_frames ping_history_record_pings jitter_history_record_pings)
qed

subsection \<open>Packet loss rate\<close>

lemma increment_sent_funpow:
  "(increment_sent ^^ n) t = t \<lparr> packets_sent := packets_sent t + of_nat n \<rparr>"
  by (induction n) (simp_all add: increment_sent_def)

lemma record_packet_loss_funpow:
  "(record_packet_loss ^^ n) t = t \<lparr> packet_loss := packet_loss t + of_nat n \<rparr>"
  by (induction n) (simp_all add: record_packet_loss_def)

text \<open>
  Claim C8. \<open>packet_loss_rate\<close> is 0 when no packet was sent, and the percentage
  \<open>packet_loss / packets_sent * 100\<close> otherwise; a new tracker that records 2 losses and
  then 20 sent packets has the rate 10.
\<close>

theorem packet_loss_rate_guarded:
  "(packets_sent t = 0 \<longrightarrow> packet_loss_rate t = 0)
   \<and> (packets_sent t \<noteq> 0 \<longrightarrow>
        packet_loss_rate t = real (unat (packet_loss t)) / real (unat (packets_sent t)) * 100)
   \<and> packet_loss_rate
        ((increment_sent ^^ 20) ((record_packet_loss ^^ 2) (LatencyTracker_new cap))) = 10"
  by (simp add: packet_loss_rate_def increment_sent_funpow record_packet_loss_funpow
      LatencyTracker_new_def)

theorem packet_loss_rate_guarded_witness:
  "packet_loss_rate (LatencyTracker_new 8) = 0
   \<and> packet_loss_rate (increment_sent (increment_sent (record_packet_loss (LatencyTracker_new 8))))
       = 50"
  using packet_loss_rate_guarded [of "LatencyTracker_new 8" 8]
    packet_loss_rate_guarded
      [of "increment_sent (increment_sent (record_packet_loss (LatencyTracker_new 8)))" 8]
  by (simp add: increment_sent_def record_packet_loss_def LatencyTracker_new_def)

subsection \<open>Quality score of a new tracker\<close>

text \<open>
  Claim C9. A new \<open>LatencyTracker\<close> has the average latency 0, the average jitter 0 and
  the packet loss rate 0; each falls into the first branch of its sub-score (40, 30 and
  30), and \<open>quality_score\<close> returns 100, with and without overflow checks.
\<close>

theorem quality_score_new:
  "quality_score (LatencyTracker_new cap) = 100
   \<and> quality_score_checked (LatencyTracker_new cap) = Inr 100
   \<and> average_latency (LatencyTracker_new cap) = 0
   \<and> average_jitter (LatencyTracker_new cap) = 0
   \<and> packet_loss_rate (LatencyTracker_new cap) = 0
   \<and> latency_score 0 = 40 \<and> jitter_score 0 = 30 \<and> loss_score 0 = 30"
  by (simp add: quality_score_def quality_score_checked_def LatencyTracker_new_def
      average_latency_def average_jitter_def packet_loss_rate_def mean_def latency_score_def
      jitter_score_def loss_score_def clamp_u8_def checked_add_def)

subsection \<open>Rounding to f64\<close>

lemma round_half_even_of_int: "round_half_even (real_of_int i) = i"
  by (simp add: round_half_even_def)

lemma round_half_even_le: "y \<le> real_of_int i \<Longrightarrow> round_half_even y \<le> i"
proof -
  assume le: "y \<le> real_of_int i"
  show ?thesis
  proof (cases "y = real_of_int i")
    case True
    then show ?thesis by (simp add: round_half_even_of_int)
  next
    case False
    then have "y < real_of_int i" using le by simp
    then have "\<lfloor>y\<rfloor> < i" by (simp add: floor_less_iff)
    then show ?thesis by (auto simp: round_half_even_def Let_def)
  qed
qed

lemma round_half_even_ge: "real_of_int i \<le> y \<Longrightarrow> i \<le> round_half_even y"
proof -
  assume "real_of_int i \<le> y"
  then have "i \<le> \<lfloor>y\<rfloor>" by (simp add: le_floor_iff)
  then show ?thesis by (auto simp: round_half_even_def Let_def)
qed

lemma round_half_even_error: "\<bar>real_of_int (round_half_even y) - y\<bar> \<le> 1 / 2"
proof -
  define n where "n = \<lfloor>y\<rfloor>"
  define r where "r = y - real_of_int n"
  have r: "0 \<le> r" "r < 1" unfolding r_def n_def by linarith+
  have y: "y = real_of_int n + r" by (simp add: r_def)
  have "round_half_even y =
      (if r < 1 / 2 then n else if 1 / 2 < r then n + 1 else if even n then n else n + 1)"
    unfolding round_half_even_def Let_def n_def [symmetric] r_def [symmetric] ..
  then show ?thesis using r unfolding y by (auto split: if_splits)
qed

lemma f64_ulp_pos: "0 < f64_ulp x"
  by (simp add: f64_ulp_def)

lemma f64_rnd_zero: "f64_rnd 0 = 0"
  by (simp add: f64_rnd_def)

lemma f64_rnd_pos:
  "0 < x \<Longrightarrow> f64_rnd x = real_of_int (round_half_even (x / f64_ulp x)) * f64_ulp x"
  by (simp add: f64_rnd_def)

lemma f64_rnd_nonneg: "0 \<le> x \<Longrightarrow> 0 \<le> f64_rnd x"
proof (cases "x = 0")
  case True
  then show ?thesis by (simp add: f64_rnd_zero)
next
  case False
  assume "0 \<le> x"
  then have x: "0 < x" using False by simp
  have "real_of_int 0 \<le> x / f64_ulp x" using x f64_ulp_pos [of x] by simp
  then have "0 \<le> round_half_even (x / f64_ulp x)" by (rule round_half_even_ge)
  then show ?thesis using f64_ulp_pos [of x] by (simp add: f64_rnd_pos [OF x])
qed

lemma f64_rnd_error: "0 \<le> x \<Longrightarrow> \<bar>f64_rnd x - x\<bar> \<le> f64_ulp x / 2"
proof (cases "x = 0")
  case True
  then show ?thesis using f64_ulp_pos [of 0] by (simp add: f64_rnd_zero)
next
  case False
  assume "0 \<le> x"
  then have x: "0 < x" using False by simp
  define u where "u = f64_ulp x"
  have u: "0 < u" unfolding u_def by (rule f64_ulp_pos)
  define m where "m = real_of_int (round_half_even (x / u))"
  have "\<bar>m - x / u\<bar> \<le> 1 / 2" unfolding m_def by (rule round_half_even_error)
  then have "\<bar>m - x / u\<bar> * u \<le> 1 / 2 * u" using u by (intro mult_right_mono) auto
  moreover have "(m - x / u) * u = m * u - x"
    using u by (simp add: left_diff_distrib)
  then have "\<bar>m * u - x\<bar> = \<bar>m - x / u\<bar> * \<bar>u\<bar>"
    by (metis abs_mult)
  then have "\<bar>m - x / u\<bar> * u = \<bar>m * u - x\<bar>"
    using u by simp
  ultimately have "\<bar>m * u - x\<bar> \<le> u / 2" by simp
  then show ?thesis unfolding f64_rnd_pos [OF x] u_def [symmetric] m_def [symmetric] .
qed

lemma f64_ulp_le: "f64_ulp x \<le> 1 / 2 ^ 1074 + \<bar>x\<bar> / 2 ^ 52"
proof (cases "f64_shift x = 0")
  case True
  then show ?thesis by (simp add: f64_ulp_def)
next
  case False
  define N where "N = \<lfloor>\<bar>x\<bar> * 2 ^ 1074\<rfloor>"
  define s where "s = f64_shift x"
  have s: "s = nat (bitlen N - 53)" "0 < s"
    using False unfolding s_def f64_shift_def N_def by simp_all
  then have "int s + 53 \<le> bitlen N" by linarith
  then have "2 ^ (nat (int s + 53) - 1) \<le> N"
    using s(2) by (simp only: bitlen_ge_iff_power) linarith
  moreover have "nat (int s + 53) - 1 = s + 52" by simp
  ultimately have "2 ^ (s + 52) \<le> N" by (simp only:)
  then have "real_of_int (2 ^ (s + 52)) \<le> real_of_int N" by (simp only: of_int_le_iff)
  also have "\<dots> \<le> \<bar>x\<bar> * 2 ^ 1074" unfolding N_def by (rule of_int_floor_le)
  finally have "(2::real) ^ s * 2 ^ 52 \<le> \<bar>x\<bar> * 2 ^ 1074" by (simp add: power_add)
  then have "(2::real) ^ s / 2 ^ 1074 \<le> \<bar>x\<bar> / 2 ^ 52"
    by (simp only: divide_le_eq le_divide_eq) (simp add: field_simps)
  then show ?thesis unfolding f64_ulp_def s_def [symmetric] by simp
qed

lemma f64_shift_le:
  assumes "\<bar>x\<bar> < 2 ^ 53"
  shows "f64_shift x \<le> 1074"
proof -
  define N where "N = \<lfloor>\<bar>x\<bar> * 2 ^ 1074\<rfloor>"
  have "\<bar>x\<bar> * 2 ^ 1074 < 2 ^ 53 * 2 ^ 1074" using assms by simp
  also have "(2::real) ^ 53 * 2 ^ 1074 = real_of_int (2 ^ 1127)" by (simp add: power_add [symmetric])
  finally have "N < 2 ^ 1127" unfolding N_def by (simp only: floor_less_iff)
  then have "N < 2 ^ nat 1127" by simp
  then have "bitlen N \<le> 1127" by (simp only: bitlen_le_iff_power) simp
  then show ?thesis unfolding f64_shift_def N_def [symmetric] by simp
qed

lemma f64_ulp_times:
  assumes "\<bar>x\<bar> < 2 ^ 53"
  shows "f64_ulp x * real_of_int (2 ^ (1074 - f64_shift x)) = 1"
proof -
  have "(2::real) ^ f64_shift x * 2 ^ (1074 - f64_shift x) = 2 ^ 1074"
    using f64_shift_le [OF assms] by (simp only: power_add [symmetric]) simp
  then show ?thesis by (simp add: f64_ulp_def)
qed

lemma f64_rnd_le_int:
  assumes "0 \<le> x" "x \<le> real_of_int i" "x < 2 ^ 53"
  shows "f64_rnd x \<le> real_of_int i"
proof (cases "x = 0")
  case True
  then show ?thesis using assms(2) by (simp add: f64_rnd_zero)
next
  case False
  then have x: "0 < x" using assms(1) by simp
  define u where "u = f64_ulp x"
  define c where "c = (2::int) ^ (1074 - f64_shift x)"
  have u: "0 < u" unfolding u_def by (rule f64_ulp_pos)
  have uc: "u * real_of_int c = 1"
    unfolding u_def c_def using assms(1,3) by (intro f64_ulp_times) simp
  then have inv: "1 / u = real_of_int c" using u by (simp add: field_simps)
  have "x / u = x * (1 / u)" by simp
  also have "\<dots> = x * real_of_int c" by (simp only: inv)
  also have "\<dots> \<le> real_of_int i * real_of_int c"
    using assms(2) by (intro mult_right_mono) (simp_all add: c_def)
  finally have "x / u \<le> real_of_int (i * c)" by simp
  then have "round_half_even (x / u) \<le> i * c" by (rule round_half_even_le)
  then have "real_of_int (round_half_even (x / u)) \<le> real_of_int (i * c)"
    by (simp only: of_int_le_iff)
  then have "real_of_int (round_half_even (x / u)) * u \<le> real_of_int (i * c) * u"
    using u by (intro mult_right_mono) auto
  also have "real_of_int (i * c) * u = real_of_int i * (u * real_of_int c)" by simp
  finally show ?thesis unfolding f64_rnd_pos [OF x] u_def [symmetric] uc by simp
qed

lemma f64_rnd_int:
  assumes "0 \<le> i" "real_of_int i < 2 ^ 53"
  shows "f64_rnd (real_of_int i) = real_of_int i"
proof (cases "i = 0")
  case True
  then show ?thesis by (simp add: f64_rnd_zero)
next
  case False
  define x where "x = real_of_int i"
  have x: "0 < x" using False assms(1) by (simp add: x_def)
  define u where "u = f64_ulp x"
  define c where "c = (2::int) ^ (1074 - f64_shift x)"
  have u: "0 < u" unfolding u_def by (rule f64_ulp_pos)
  have uc: "u * real_of_int c = 1"
    unfolding u_def c_def using assms x by (intro f64_ulp_times) (simp add: x_def)
  then have inv: "1 / u = real_of_int c" using u by (simp add: field_simps)
  have "x / u = x * (1 / u)" by simp
  also have "\<dots> = x * real_of_int c" by (simp only: inv)
  also have "\<dots> = real_of_int (i * c)" by (simp add: x_def)
  finally have "round_half_even (x / u) = i * c" by (simp only: round_half_even_of_int)
  then have "f64_rnd x = real_of_int (i * c) * u"
    unfolding f64_rnd_pos [OF x] u_def [symmetric] by simp
  also have "\<dots> = real_of_int i * (u * real_of_int c)" by simp
  finally show ?thesis unfolding uc x_def by simp
qed

lemma usize_as_f64_exact: "n < 2 ^ 53 \<Longrightarrow> usize_as_f64 n = real n"
proof -
  assume "n < 2 ^ 53"
  then have "real n < 2 ^ 53" by (metis of_nat_less_numeral_power_cancel_iff)
  then show ?thesis
    using f64_rnd_int [of "int n"] by (simp add: usize_as_f64_def)
qed

lemma f64_shift_eqI:
  assumes "2 ^ (s + 52) \<le> \<bar>x\<bar> * 2 ^ 1074" "\<bar>x\<bar> * 2 ^ 1074 < 2 ^ (s + 53)"
  shows "f64_shift x = s"
proof -
  define N where "N = \<lfloor>\<bar>x\<bar> * 2 ^ 1074\<rfloor>"
  have lo: "2 ^ (s + 52) \<le> N"
  proof -
    have "real_of_int (2 ^ (s + 52)) \<le> \<bar>x\<bar> * 2 ^ 1074" using assms(1) by simp
    then show ?thesis unfolding N_def by (simp only: le_floor_iff)
  qed
  have hi: "N < 2 ^ (s + 53)"
  proof -
    have "\<bar>x\<bar> * 2 ^ 1074 < real_of_int (2 ^ (s + 53))" using assms(2) by simp
    then show ?thesis unfolding N_def by (simp only: floor_less_iff)
  qed
  have "N < 2 ^ nat (int (s + 53))" using hi by (simp only: nat_int)
  then have "bitlen N \<le> int (s + 53)"
    by (simp only: bitlen_le_iff_power) simp
  moreover have "nat (int (s + 53)) - 1 = s + 52" by simp
  then have "2 ^ (nat (int (s + 53)) - 1) \<le> N" using lo by (simp only:)
  then have "int (s + 53) \<le> bitlen N"
    by (simp only: bitlen_ge_iff_power) simp
  ultimately have "bitlen N = int (s + 53)" by simp
  then show ?thesis unfolding f64_shift_def N_def [symmetric] by simp
qed

lemma f64_rnd_eqI:
  assumes "0 < x" "2 ^ (s + 52) \<le> x * 2 ^ 1074" "x * 2 ^ 1074 < 2 ^ (s + 53)"
    "round_half_even (x * 2 ^ 1074 / 2 ^ s) = m"
  shows "f64_rnd x = real_of_int m * 2 ^ s / 2 ^ 1074"
proof -
  have "f64_shift x = s"
    using assms(1-3) by (intro f64_shift_eqI) simp_all
  then show ?thesis
    using assms(1,4) by (simp add: f64_rnd_def f64_ulp_def)
qed

subsection \<open>Percentiles\<close>

lemma sorted_last_Max:
  assumes "sorted ys" "ys \<noteq> []"
  shows "ys ! (length ys - 1) = Max (set ys)"
proof -
  have "\<forall>y\<in>set ys. y \<le> ys ! (length ys - 1)"
  proof
    fix y assume "y \<in> set ys"
    then obtain i where "i < length ys" "ys ! i = y" by (auto simp: in_set_conv_nth)
    then show "y \<le> ys ! (length ys - 1)"
      using sorted_nth_mono [OF assms(1), of i "length ys - 1"] by auto
  qed
  moreover have "ys ! (length ys - 1) \<in> set ys" using assms(2) by simp
  ultimately show ?thesis by (intro Max_eqI [symmetric]) auto
qed

lemma sorted_first_Min:
  assumes "sorted ys" "ys \<noteq> []"
  shows "ys ! 0 = Min (set ys)"
proof -
  have "\<forall>y\<in>set ys. ys ! 0 \<le> y"
  proof
    fix y assume "y \<in> set ys"
    then obtain i where "i < length ys" "ys ! i = y" by (auto simp: in_set_conv_nth)
    then show "ys ! 0 \<le> y"
      using sorted_nth_mono [OF assms(1), of 0 i] by auto
  qed
  moreover have "ys ! 0 \<in> set ys" using assms(2) by simp
  ultimately show ?thesis by (intro Min_eqI [symmetric]) auto
qed

lemma sort_not_Nil: "xs \<noteq> [] \<Longrightarrow> sort xs \<noteq> []"
  by (metis length_sort length_0_conv)

lemma f64_round_nonneg: "0 \<le> y \<Longrightarrow> f64_round y = round y"
  by (simp add: f64_round_def round_def)

lemma round_bounds:
  assumes "0 \<le> y" "y \<le> real k"
  shows "nat (round y) \<le> k"
proof -
  have "y + 1 / 2 < real k + 1" using assms(2) by simp
  then have "\<lfloor>y + 1 / 2\<rfloor> \<le> int k" by linarith
  then show ?thesis unfolding round_def by simp
qed

lemma percentile_index:
  assumes "xs \<noteq> []"
    "index = f64_as_usize (f64_round (f64_mul (f64_div p 100) (usize_as_f64 (length xs - 1))))"
    "index < length xs"
  shows "percentile xs p = Inr (sort xs ! index)"
  using assms by (simp add: percentile_def Let_def del: of_nat_diff)

lemma f64_div_percent:
  assumes "0 \<le> p" "p \<le> 100"
  shows "0 \<le> f64_div p 100" "f64_div p 100 \<le> 1"
proof -
  show "0 \<le> f64_div p 100"
    unfolding f64_div_def using assms(1) by (intro f64_rnd_nonneg) simp
  have "f64_rnd (p / 100) \<le> real_of_int 1"
    using assms by (intro f64_rnd_le_int) simp_all
  then show "f64_div p 100 \<le> 1" by (simp add: f64_div_def)
qed

lemma f64_rank_bounds:
  assumes "0 \<le> p" "p \<le> 100" "k < 2 ^ 53"
  shows "0 \<le> f64_mul (f64_div p 100) (real k)" "f64_mul (f64_div p 100) (real k) \<le> real k"
proof -
  define a where "a = f64_div p 100"
  have a: "0 \<le> a" "a \<le> 1" unfolding a_def using assms(1,2) by (rule f64_div_percent)+
  have k: "real k < 2 ^ 53" using assms(3) by (metis of_nat_less_numeral_power_cancel_iff)
  have x0: "0 \<le> a * real k" using a(1) by simp
  have "a * real k \<le> 1 * real k" using a(2) by (intro mult_right_mono) simp_all
  then have xk: "a * real k \<le> real_of_int (int k)" by simp
  show "0 \<le> f64_mul (f64_div p 100) (real k)"
    unfolding f64_mul_def a_def [symmetric] using x0 by (rule f64_rnd_nonneg)
  have "f64_rnd (a * real k) \<le> real_of_int (int k)"
    using x0 xk k by (intro f64_rnd_le_int) simp_all
  then show "f64_mul (f64_div p 100) (real k) \<le> real k"
    unfolding f64_mul_def a_def [symmetric] by simp
qed

lemma f64_rnd_error_bound:
  assumes "0 \<le> x" "x \<le> b"
  shows "\<bar>f64_rnd x - x\<bar> \<le> (1 / 2 ^ 1074 + b / 2 ^ 52) / 2"
proof -
  have "\<bar>f64_rnd x - x\<bar> \<le> f64_ulp x / 2" using assms(1) by (rule f64_rnd_error)
  also have "\<dots> \<le> (1 / 2 ^ 1074 + \<bar>x\<bar> / 2 ^ 52) / 2"
    using f64_ulp_le [of x] by (intro divide_right_mono) simp_all
  also have "\<dots> \<le> (1 / 2 ^ 1074 + b / 2 ^ 52) / 2"
    using assms by (intro divide_right_mono add_left_mono) simp_all
  finally show ?thesis .
qed

lemma f64_rank_error:
  assumes "0 \<le> p" "p \<le> 100" "k < 2 ^ 53"
  shows "\<bar>f64_mul (f64_div p 100) (real k) - p / 100 * real k\<bar> \<le> real (k + 1) / 2 ^ 52"
proof -
  define q where "q = p / 100"
  define a where "a = f64_rnd q"
  define x where "x = a * real k"
  define e :: real where "e = 1 / 2 ^ 1074"
  define c :: real where "c = 1 / 2 ^ 52"
  have e: "0 \<le> e" "e * 2 ^ 53 \<le> c" by (simp_all add: e_def c_def)
  have c: "0 \<le> c" by (simp add: c_def)
  have q: "0 \<le> q" "q \<le> 1" using assms(1,2) by (simp_all add: q_def)
  have a: "0 \<le> a" "a \<le> 1"
    using f64_div_percent [OF assms(1,2)] by (simp_all add: a_def q_def f64_div_def)
  have k: "real k + 1 \<le> 2 ^ 53"
  proof -
    have "k + 1 \<le> 2 ^ 53" using assms(3) by simp
    then have "real (k + 1) \<le> 2 ^ 53" by (metis of_nat_le_numeral_power_cancel_iff)
    then show ?thesis by simp
  qed
  have "e * (real k + 1) \<le> e * 2 ^ 53" using e(1) k by (rule mult_left_mono [rotated])
  then have ek: "e * real k + e \<le> c" using e(2) by (simp add: distrib_left)
  have x: "0 \<le> x" "x \<le> real k"
  proof -
    show "0 \<le> x" using a(1) by (simp add: x_def)
    have "a * real k \<le> 1 * real k" using a(2) by (intro mult_right_mono) simp_all
    then show "x \<le> real k" by (simp add: x_def)
  qed
  have d1: "\<bar>a - q\<bar> \<le> (e + c) / 2"
    using f64_rnd_error_bound [OF q] by (simp add: a_def e_def c_def)
  have "\<bar>x - q * real k\<bar> = \<bar>a - q\<bar> * real k"
    unfolding x_def by (simp add: left_diff_distrib [symmetric] abs_mult)
  also have "\<dots> \<le> (e + c) / 2 * real k"
    using d1 by (intro mult_right_mono) simp_all
  finally have d1k: "\<bar>x - q * real k\<bar> \<le> (e * real k + c * real k) / 2"
    by (simp add: distrib_right)
  have d2: "\<bar>f64_rnd x - x\<bar> \<le> (e + c * real k) / 2"
    using f64_rnd_error_bound [OF x] by (simp add: e_def c_def)
  have "\<bar>f64_rnd x - q * real k\<bar> \<le> \<bar>f64_rnd x - x\<bar> + \<bar>x - q * real k\<bar>" by argo
  also have "\<dots> \<le> (e + c * real k) / 2 + (e * real k + c * real k) / 2"
    by (rule add_mono [OF d2 d1k])
  also have "\<dots> \<le> c * real k + c" using ek c by argo
  also have "\<dots> = real (k + 1) / 2 ^ 52" by (simp add: c_def add_divide_distrib)
  finally show ?thesis
    unfolding f64_mul_def f64_div_def x_def a_def q_def .
qed

lemma percentile_in_range:
  assumes "xs \<noteq> []" "0 \<le> p" "p \<le> 100" "length xs \<le> 2 ^ 53"
  shows "nat (round (f64_mul (f64_div p 100) (real (length xs - 1)))) < length xs
     \<and> percentile xs p =
         Inr (sort xs ! nat (round (f64_mul (f64_div p 100) (real (length xs - 1)))))"
proof -
  define k where "k = length xs - 1"
  define y where "y = f64_mul (f64_div p 100) (real k)"
  have k: "k < 2 ^ 53" "k < length xs"
    using assms(1,4) by (cases xs; simp add: k_def)+
  have y: "0 \<le> y" "y \<le> real k"
    unfolding y_def using assms(2,3) k(1) by (rule f64_rank_bounds)+
  have "nat (round y) \<le> k" using y by (rule round_bounds)
  then have lt: "nat (round y) < length xs" using k(2) by simp
  have "nat (round y) =
      f64_as_usize (f64_round (f64_mul (f64_div p 100) (usize_as_f64 (length xs - 1))))"
    unfolding k_def [symmetric] usize_as_f64_exact [OF k(1)] y_def [symmetric]
    using y(1) by (simp add: f64_as_usize_def f64_round_nonneg)
  then have "percentile xs p = Inr (sort xs ! nat (round y))"
    using lt by (intro percentile_index [OF assms(1)])
  then show ?thesis using lt unfolding y_def k_def by blast
qed

lemma percentile_100:
  assumes "xs \<noteq> []" "length xs \<le> 2 ^ 53"
  shows "percentile xs 100 = Inr (Max (set xs))"
proof -
  define k where "k = length xs - 1"
  have k: "k < 2 ^ 53" "k < length xs" "k = length (sort xs) - 1"
    using assms by (cases xs; simp add: k_def)+
  have one: "f64_div 100 100 = 1"
    using f64_rnd_int [of 1] by (simp add: f64_div_def)
  have "f64_mul 1 (real k) = real k"
    using usize_as_f64_exact [OF k(1)] by (simp add: f64_mul_def usize_as_f64_def)
  then have "nat (round (f64_mul (f64_div 100 100) (real k))) = k"
    unfolding one by simp
  then have "percentile xs 100 = Inr (sort xs ! k)"
    using percentile_in_range [OF assms(1) _ _ assms(2), of 100] unfolding k_def by simp
  also have "sort xs ! k = Max (set (sort xs))"
    unfolding k(3) using sort_not_Nil [OF assms(1)] by (intro sorted_last_Max) auto
  finally show ?thesis by simp
qed

lemma percentile_0:
  assumes "xs \<noteq> []"
  shows "percentile xs 0 = Inr (Min (set xs))"
proof -
  have "f64_as_usize (f64_round (f64_mul (f64_div 0 100) (usize_as_f64 (length xs - 1)))) = 0"
    by (simp add: f64_div_def f64_mul_def f64_rnd_zero f64_round_def f64_as_usize_def)
  then have "percentile xs 0 = Inr (sort xs ! 0)"
    using percentile_index [OF assms, of 0 0] assms by simp
  also have "sort xs ! 0 = Min (set (sort xs))"
    using sort_not_Nil [OF assms] by (intro sorted_first_Min) auto
  finally show ?thesis by simp
qed

lemma percentile_empty: "percentile [] p = Inr 0"
  by (simp add: percentile_def)

lemma f64_div_95: "f64_div 95 100 = 8556839292003942 / 2 ^ 53"
  unfolding f64_div_def
  using f64_rnd_eqI [of "95 / 100" 1021 8556839292003942]
  by (simp add: round_half_even_def Let_def)

lemma percentile_95_index:
  "f64_as_usize (f64_round (f64_mul (f64_div 95 100) (usize_as_f64 k))) \<le> k"
proof (cases "k = 0")
  case True
  then show ?thesis
    by (simp add: usize_as_f64_def f64_mul_def f64_rnd_zero f64_round_def f64_as_usize_def)
next
  case False
  then have k1: "1 \<le> real k" by simp
  define a :: real where "a = f64_div 95 100"
  define K where "K = usize_as_f64 k"
  define x where "x = a * K"
  have a: "0 \<le> a" "a \<le> 31 / 32" unfolding a_def f64_div_95 by simp_all
  have K0: "0 \<le> K" unfolding K_def usize_as_f64_def by (intro f64_rnd_nonneg) simp
  have sm: "(1 / 2 ^ 1074 + b / 2 ^ 52) / 2 \<le> (1 + b) / 2048" if "0 \<le> b" for b :: real
  proof -
    define u :: real where "u = 1 / 2 ^ 1074"
    define v :: real where "v = b / 2 ^ 52"
    have "u \<le> 1 / 1024" "v \<le> b / 1024"
      using that by (simp_all add: u_def v_def divide_left_mono)
    then have "(u + v) / 2 \<le> (1 + b) / 2048" by argo
    then show ?thesis unfolding u_def v_def .
  qed
  have "\<bar>K - real k\<bar> \<le> (1 / 2 ^ 1074 + real k / 2 ^ 52) / 2"
    unfolding K_def usize_as_f64_def by (intro f64_rnd_error_bound) simp_all
  also have "\<dots> \<le> (1 + real k) / 2048" by (intro sm) simp
  finally have K: "K \<le> real k * (1025 / 1024)" using k1 by argo
  have x0: "0 \<le> x" unfolding x_def using a(1) K0 by simp
  have "a * K \<le> 31 / 32 * (real k * (1025 / 1024))"
    using a K K0 by (intro mult_mono) simp_all
  then have xk: "x \<le> real k * (31775 / 32768)" by (simp add: x_def)
  have "\<bar>f64_rnd x - x\<bar> \<le> (1 / 2 ^ 1074 + x / 2 ^ 52) / 2"
    using x0 by (intro f64_rnd_error_bound) simp_all
  also have "\<dots> \<le> (1 + x) / 2048" using x0 by (rule sm)
  finally have "f64_rnd x \<le> x + (1 + x) / 2048" by argo
  then have "f64_rnd x \<le> real k" using xk k1 by argo
  moreover have "0 \<le> f64_rnd x" using x0 by (rule f64_rnd_nonneg)
  ultimately have "nat (round (f64_rnd x)) \<le> k" by (intro round_bounds)
  moreover have "f64_round (f64_rnd x) = round (f64_rnd x)"
    using \<open>0 \<le> f64_rnd x\<close> by (rule f64_round_nonneg)
  ultimately show ?thesis
    unfolding f64_mul_def a_def [symmetric] K_def [symmetric] x_def [symmetric]
    by (simp add: f64_as_usize_def)
qed

lemma percentile_95_total: "\<exists>v. percentile xs 95 = Inr v"
proof (cases "xs = []")
  case True
  then show ?thesis by (simp add: percentile_empty)
next
  case False
  define i where
    "i = f64_as_usize (f64_round (f64_mul (f64_div 95 100) (usize_as_f64 (length xs - 1))))"
  have "i \<le> length xs - 1" unfolding i_def by (rule percentile_95_index)
  then have "i < length xs" using False by (cases xs) auto
  then have "percentile xs 95 = Inr (sort xs ! i)"
    using percentile_index [OF False i_def] by simp
  then show ?thesis by blast
qed

lemma sort_scenario_samples: "sort scenario_samples = scenario_samples"
  by (simp add: scenario_samples_def)

lemma f64_div_58: "f64_div 58 100 = 5224175567749775 / 2 ^ 53"
  unfolding f64_div_def
  using f64_rnd_eqI [of "58 / 100" 1021 5224175567749775]
  by (simp add: round_half_even_def Let_def)

lemma f64_mul_58_25: "f64_mul (5224175567749775 / 2 ^ 53) 25 = 8162774324609023 / 2 ^ 49"
  unfolding f64_mul_def
  using f64_rnd_eqI [of "5224175567749775 / 2 ^ 53 * 25" 1025 8162774324609023]
  by (simp add: round_half_even_def Let_def)

lemma scenario_samples_rank:
  "f64_mul (f64_div 58 100) (real (length scenario_samples - 1)) = 8162774324609023 / 2 ^ 49"
proof -
  have "real (length scenario_samples - 1) = 25" by (simp add: scenario_samples_def)
  then show ?thesis by (simp only: f64_div_58 f64_mul_58_25)
qed

lemma scenario_samples_facts:
  "scenario_samples \<noteq> []" "length scenario_samples = 26"
  "scenario_samples ! 14 = 15" "scenario_samples ! 15 = 16"
  "Max (set scenario_samples) = 26" "Min (set scenario_samples) = 1"
  by (simp_all add: scenario_samples_def)

lemma scenario_samples_f64_index:
  "nat (round (f64_mul (f64_div 58 100) (real (length scenario_samples - 1)))) = 14"
  unfolding scenario_samples_rank by (simp add: round_def)

lemma scenario_samples_exact_index:
  "nat (round (58 / 100 * real (length scenario_samples - 1))) = 15"
  by (simp add: scenario_samples_def round_def)

text \<open>
  Claim C6. The percentile of \<open>percentile_frame_time\<close> and \<open>percentile_latency\<close> is 0 on
  an empty buffer. On a non-empty buffer of at most \<open>2 ^ 53\<close> elements and for \<open>p\<close> from 0
  to 100 it is the element of the buffer sorted in ascending order at the index
  \<open>round (fl (fl (p / 100) * (n - 1)))\<close>, where \<open>fl\<close> rounds to \<open>f64\<close>; this index is below the
  length \<open>n\<close>, and the rounded product differs from \<open>p / 100 * (n - 1)\<close> by at most
  \<open>n / 2 ^ 52\<close>, so that the index is the exact nearest rank unless the exact product is that
  near to a tie. For \<open>p = 100\<close> the percentile is the maximum and for \<open>p = 0\<close> the minimum
  of the buffer.
\<close>

theorem percentile_f64_rank:
  "percentile [] p = Inr 0
   \<and> (xs \<noteq> [] \<and> 0 \<le> p \<and> p \<le> 100 \<and> length xs \<le> 2 ^ 53 \<longrightarrow>
        nat (round (f64_mul (f64_div p 100) (real (length xs - 1)))) < length xs
        \<and> percentile xs p =
            Inr (sort xs ! nat (round (f64_mul (f64_div p 100) (real (length xs - 1)))))
        \<and> \<bar>f64_mul (f64_div p 100) (real (length xs - 1)) - p / 100 * real (length xs - 1)\<bar>
            \<le> real (length xs) / 2 ^ 52)
   \<and> (xs \<noteq> [] \<and> length xs \<le> 2 ^ 53 \<longrightarrow> percentile xs 100 = Inr (Max (set xs)))
   \<and> (xs \<noteq> [] \<longrightarrow> percentile xs 0 = Inr (Min (set xs)))
   \<and> percentile_frame_time t p = percentile (frame_times t) p
   \<and> percentile_latency l p = percentile (ping_history l) p"
proof -
  have err: "\<bar>f64_mul (f64_div p 100) (real (length xs - 1)) - p / 100 * real (length xs - 1)\<bar>
      \<le> real (length xs) / 2 ^ 52"
    if "xs \<noteq> []" "0 \<le> p" "p \<le> 100" "length xs \<le> 2 ^ 53"
  proof -
    have k: "length xs - 1 < 2 ^ 53" "length xs - 1 + 1 = length xs"
      using that(1,4) by (cases xs; simp)+
    show ?thesis using f64_rank_error [OF that(2,3) k(1)] unfolding k(2) .
  qed
  show ?thesis
    using percentile_in_range [of xs p] percentile_100 [of xs] percentile_0 [of xs] err
    by (simp add: percentile_empty percentile_frame_time_def percentile_latency_def
        del: of_nat_diff)
qed

theorem percentile_f64_rank_witness:
  "scenario_samples \<noteq> [] \<and> (0 :: real) \<le> 58 \<and> (58 :: real) \<le> 100
   \<and> length scenario_samples \<le> 2 ^ 53
   \<and> percentile scenario_samples 58 = Inr 15
   \<and> percentile scenario_samples 100 = Inr 26
   \<and> percentile scenario_samples 0 = Inr 1"
  using percentile_f64_rank [where xs = scenario_samples and p = 58]
  unfolding scenario_samples_f64_index sort_scenario_samples
  by (simp add: scenario_samples_facts)

text \<open>
  The claim as it is stated, with the index \<open>round (p / 100 * (n - 1))\<close> of exact
  arithmetic, fails for \<open>p = 58\<close> on a buffer of 26 samples: the exact product is 14.5 and
  its nearest rank 15, the product of the floats is below 14.5 and the index is 14.
\<close>

theorem percentile_exact_rank_counterexample:
  "percentile scenario_samples 58 = Inr 15
   \<and> sort scenario_samples ! nat (round (58 / 100 * real (length scenario_samples - 1))) = 16
   \<and> percentile scenario_samples 58 \<noteq>
       Inr (sort scenario_samples ! nat (round (58 / 100 * real (length scenario_samples - 1))))"
proof -
  have "percentile scenario_samples 58 = Inr (sort scenario_samples ! 14)"
    using percentile_in_range [of scenario_samples 58]
    unfolding scenario_samples_f64_index by (simp add: scenario_samples_facts)
  then show ?thesis
    unfolding scenario_samples_exact_index sort_scenario_samples
    by (simp add: scenario_samples_facts)
qed

subsection \<open>Folds of minimum and maximum\<close>

lemma foldl_min: "foldl min a xs = Min (insert a (set xs))"
proof (induction xs arbitrary: a)
  case Nil
  then show ?case by simp
next
  case (Cons x xs)
  have "Min (insert (min a x) (set xs)) = Min (insert a (insert x (set xs)))"
    by (cases "set xs = {}") (simp_all add: min.assoc)
  then show ?case using Cons by simp
qed

lemma foldl_max: "foldl max a xs = Max (insert a (set xs))"
proof (induction xs arbitrary: a)
  case Nil
  then show ?case by simp
next
  case (Cons x xs)
  have "Max (insert (max a x) (set xs)) = Max (insert a (insert x (set xs)))"
    by (cases "set xs = {}") (simp_all add: max.assoc)
  then show ?case using Cons by simp
qed

lemma f64_MAX_pos: "0 < f64_MAX"
  by (simp add: f64_MAX_def)

lemma foldl_max_pos:
  assumes "xs \<noteq> []" "\<forall>x\<in>set xs. 0 < x"
  shows "foldl max f64_MIN xs = Max (set xs)"
proof -
  obtain x where x: "x \<in> set xs" using assms(1) by (cases xs) auto
  then have "f64_MIN \<le> x" using assms(2) f64_MAX_pos by (force simp: f64_MIN_def)
  then have "f64_MIN \<le> Max (set xs)" using x by (meson List.finite_set Max_ge order_trans)
  then show ?thesis using assms(1) by (simp add: foldl_max max_absorb2)
qed

lemma foldl_min_bounded:
  assumes "xs \<noteq> []" "\<forall>x\<in>set xs. x \<le> f64_MAX"
  shows "foldl min f64_MAX xs = Min (set xs)"
proof -
  obtain x where x: "x \<in> set xs" using assms(1) by (cases xs) auto
  then have "Min (set xs) \<le> f64_MAX" using assms(2) by (meson List.finite_set Min_le order_trans)
  then show ?thesis using assms(1) by (simp add: foldl_min min_absorb2)
qed

subsection \<open>Sampling\<close>

lemma push_bounded_cases:
  "push_bounded cap v x = (if length v < cap then v @ [x] else tl (v @ [x]))"
  by (auto simp: push_bounded_def Let_def)

lemma max_history_sample: "max_history (snd (sample now1 millis cpu mem now2 m)) = max_history m"
  by (simp add: sample_def Let_def)

lemma length_history_sample:
  "length (history m) \<le> max_history m \<Longrightarrow>
   length (history (snd (sample now1 millis cpu mem now2 m))) \<le> max_history m"
  by (auto simp: sample_def Let_def push_bounded_def)

lemma samples_snoc:
  "samples (ins @ [(now1, millis, cpu, mem, now2)]) m =
     snd (sample now1 millis cpu mem now2 (samples ins m))"
  by (simp add: samples_def)

lemma samples_invariant:
  "length (history m) \<le> max_history m \<Longrightarrow>
   length (history (samples ins m)) \<le> max_history m
   \<and> max_history (samples ins m) = max_history m"
proof (induction ins rule: rev_induct)
  case Nil
  then show ?case by (simp add: samples_def)
next
  case (snoc i ins)
  obtain now1 millis cpu mem now2 where i: "i = (now1, millis, cpu, mem, now2)"
    by (cases i) auto
  from snoc have a: "length (history (samples ins m)) \<le> max_history (samples ins m)"
    and b: "max_history (samples ins m) = max_history m" by auto
  show ?case
    unfolding i samples_snoc
    using length_history_sample [OF a, of now1 millis cpu mem now2] b
    by (simp add: max_history_sample)
qed

text \<open>
  Claim C5. When less than \<open>sampling_rate\<close> has elapsed between \<open>last_sample\<close> (the end
  of the previous successful sample, or the construction of the monitor) and the clock
  reading at the gate, \<open>sample\<close> returns \<open>None\<close> and leaves the monitor as it is. When
  the interval has elapsed it returns a snapshot, appends it to the history and then
  removes the oldest entry if the history was full, and sets \<open>last_sample\<close>. A history
  within its capacity stays within it under any sequence of \<open>sample\<close> calls; so does
  the history of a new monitor.
\<close>

theorem sample_gate:
  "(duration_since now1 (last_sample m) < sampling_rate m \<longrightarrow>
      sample now1 millis cpu mem now2 m = (None, m))
   \<and> (sampling_rate m \<le> duration_since now1 (last_sample m) \<longrightarrow>
      (\<exists>snapshot. fst (sample now1 millis cpu mem now2 m) = Some snapshot
         \<and> history (snd (sample now1 millis cpu mem now2 m)) =
             (if length (history m) < max_history m then history m @ [snapshot]
              else tl (history m @ [snapshot]))
         \<and> last_sample (snd (sample now1 millis cpu mem now2 m)) = now2))
   \<and> (length (history m) \<le> max_history m \<longrightarrow>
        length (history (samples ins m)) \<le> max_history m)
   \<and> length (history (samples ins (PerformanceMonitor_new rate cap c1 c2 c3))) \<le> cap"
proof -
  have a: "length (history m) \<le> max_history m \<longrightarrow>
      length (history (samples ins m)) \<le> max_history m"
    using samples_invariant [of m ins] by blast
  have b: "length (history (samples ins (PerformanceMonitor_new rate cap c1 c2 c3))) \<le> cap"
    using samples_invariant [of "PerformanceMonitor_new rate cap c1 c2 c3" ins]
    by (simp add: PerformanceMonitor_new_def)
  show ?thesis
    using a b by (simp add: sample_def Let_def push_bounded_cases)
qed

theorem sample_gate_witness:
  "sample 50000000 7 None None 50000001 (PerformanceMonitor_new 100 5 0 0 0) =
     (None, PerformanceMonitor_new 100 5 0 0 0)
   \<and> fst (sample 100000000 7 None None 100000001 (PerformanceMonitor_new 100 5 0 0 0)) \<noteq> None
   \<and> length (history (snd (sample 100000000 7 None None 100000001
        (PerformanceMonitor_new 100 5 0 0 0)))) = 1
   \<and> length (history (samples [(100000000, 7, None, None, 100000001)]
        (PerformanceMonitor_new 100 5 0 0 0))) \<le> 5"
  using sample_gate [of 50000000 "PerformanceMonitor_new 100 5 0 0 0" 7 None None 50000001
      "[(100000000, 7, None, None, 100000001)]" 100 5 0 0 0]
    sample_gate [of 100000000 "PerformanceMonitor_new 100 5 0 0 0" 7 None None 100000001
      "[(100000000, 7, None, None, 100000001)]" 100 5 0 0 0]
  by (auto simp: PerformanceMonitor_new_def duration_since_def from_millis_def)

text \<open>
  Claim C7. In the snapshot that \<open>sample\<close> returns, \<open>cpu_usage\<close> is the value of the
  CPU probe, or the previous value of the field when the probe has no data, and likewise
  \<open>memory_usage\<close> for the memory probe. The timestamp, the frame rate and the frame time
  are set from the clock and the frame tracker whatever the probes return, and the other
  fields keep their previous values. \<open>sample\<close> has no panic: its result is a pair of an
  option and a monitor.
\<close>

theorem sample_retains_missing_probe:
  "fst (sample now1 millis cpu mem now2 m) = Some snapshot \<longrightarrow>
     cpu_usage snapshot = (case cpu of None \<Rightarrow> cpu_usage (metrics m) | Some c \<Rightarrow> c)
     \<and> memory_usage snapshot = (case mem of None \<Rightarrow> memory_usage (metrics m) | Some c \<Rightarrow> c)
     \<and> timestamp snapshot = millis
     \<and> frame_rate snapshot = current_fps (frame_tracker m)
     \<and> frame_time_ms snapshot = average_frame_time (frame_tracker m)
     \<and> gpu_usage snapshot = gpu_usage (metrics m)
     \<and> render_time_ms snapshot = render_time_ms (metrics m)
     \<and> update_time_ms snapshot = update_time_ms (metrics m)
     \<and> input_latency_ms snapshot = input_latency_ms (metrics m)
     \<and> network_latency_ms snapshot = network_latency_ms (metrics m)
     \<and> metrics (snd (sample now1 millis cpu mem now2 m)) = snapshot"
  by (auto simp: sample_def Let_def split: option.splits if_splits)


theorem sample_retains_missing_probe_witness:
  "fst (sample 200000001 8 None None 200000002
         (snd (sample 100000000 7 sample_cpu_usage sample_memory_usage 100000001
                (PerformanceMonitor_new 100 5 0 0 0)))) \<noteq> None
   \<and> cpu_usage (the (fst (sample 200000001 8 None None 200000002
         (snd (sample 100000000 7 sample_cpu_usage sample_memory_usage 100000001
                (PerformanceMonitor_new 100 5 0 0 0)))))) = 45
   \<and> memory_usage (the (fst (sample 200000001 8 None None 200000002
         (snd (sample 100000000 7 sample_cpu_usage sample_memory_usage 100000001
                (PerformanceMonitor_new 100 5 0 0 0)))))) = 60"
  using sample_retains_missing_probe [of 200000001 8 None None 200000002
      "snd (sample 100000000 7 sample_cpu_usage sample_memory_usage 100000001
                (PerformanceMonitor_new 100 5 0 0 0))"
      "the (fst (sample 200000001 8 None None 200000002
         (snd (sample 100000000 7 sample_cpu_usage sample_memory_usage 100000001
                (PerformanceMonitor_new 100 5 0 0 0)))))"]
  by (simp add: sample_def Let_def PerformanceMonitor_new_def duration_since_def from_millis_def
      sample_cpu_usage_def sample_memory_usage_def PerformanceMetrics_default_def)

subsection \<open>Performance profile\<close>

text \<open>
  Claim C10. \<open>calculate_profile\<close> returns a profile (the index of its 95th percentile is
  always in range). When no snapshot of the history has a frame time above 0, the minimum
  and the maximum frame time of the profile are 0. Otherwise the maximum is the largest of
  the frame times above 0, and the minimum is the smallest of them, given that no float
  exceeds \<open>f64::MAX\<close>, the start value of the fold. The method takes \<open>&self\<close>: its model
  is a function of the monitor and returns no monitor. The playtime and the score of the
  profile are computed with wrapping arithmetic; with overflow checks the subtraction of
  \<open>calculate_score\<close> can panic before a profile is built.
\<close>

theorem calculate_profile_min_max:
  "\<exists>p. calculate_profile m gid = Inr p
     \<and> (filter (\<lambda>t. 0 < t) (map frame_time_ms (history m)) = [] \<longrightarrow>
          min_frame_time p = 0 \<and> max_frame_time p = 0)
     \<and> (filter (\<lambda>t. 0 < t) (map frame_time_ms (history m)) \<noteq> [] \<longrightarrow>
          max_frame_time p = Max (set (filter (\<lambda>t. 0 < t) (map frame_time_ms (history m))))
          \<and> min_frame_time p =
              min f64_MAX (Min (set (filter (\<lambda>t. 0 < t) (map frame_time_ms (history m))))))
     \<and> (filter (\<lambda>t. 0 < t) (map frame_time_ms (history m)) \<noteq> []
          \<and> (\<forall>x \<in> set (history m). frame_time_ms x \<le> f64_MAX) \<longrightarrow>
          min_frame_time p = Min (set (filter (\<lambda>t. 0 < t) (map frame_time_ms (history m)))))"
proof -
  define fts where "fts = filter (\<lambda>t. 0 < t) (map frame_time_ms (history m))"
  obtain v where v: "percentile_frame_time (frame_tracker m) 95 = Inr v"
    using percentile_95_total [of "frame_times (frame_tracker m)"]
    by (auto simp: percentile_frame_time_def)
  obtain p where p: "calculate_profile m gid = Inr p"
    and mn: "min_frame_time p = (if fts \<noteq> [] then foldl min f64_MAX fts else 0)"
    and mx: "max_frame_time p = (if fts \<noteq> [] then foldl max f64_MIN fts else 0)"
    using v by (simp add: calculate_profile_def Let_def fts_def)
  have pos: "\<forall>x\<in>set fts. 0 < x" by (simp add: fts_def)
  have 1: "fts = [] \<longrightarrow> min_frame_time p = 0 \<and> max_frame_time p = 0"
    using mn mx by simp
  have 2: "fts \<noteq> [] \<longrightarrow> max_frame_time p = Max (set fts)"
    using mx foldl_max_pos [OF _ pos] by simp
  have 3: "fts \<noteq> [] \<longrightarrow> min_frame_time p = min f64_MAX (Min (set fts))"
    using mn by (simp add: foldl_min)
  have 4: "fts \<noteq> [] \<and> (\<forall>x \<in> set (history m). frame_time_ms x \<le> f64_MAX) \<longrightarrow>
      min_frame_time p = Min (set fts)"
  proof
    assume h: "fts \<noteq> [] \<and> (\<forall>x \<in> set (history m). frame_time_ms x \<le> f64_MAX)"
    then have "\<forall>x\<in>set fts. x \<le> f64_MAX" by (auto simp: fts_def)
    then show "min_frame_time p = Min (set fts)"
      using h mn foldl_min_bounded [of fts] by simp
  qed
  show ?thesis
    using p 1 2 3 4 unfolding fts_def by blast
qed

theorem calculate_profile_min_max_witness:
  "(\<exists>p. calculate_profile
         ((PerformanceMonitor_new 100 5 0 0 0)
            \<lparr> history := [PerformanceMetrics_default \<lparr> frame_time_ms := 20 \<rparr>,
                          PerformanceMetrics_default,
                          PerformanceMetrics_default \<lparr> frame_time_ms := 10 \<rparr>] \<rparr>) ''game'' = Inr p
       \<and> min_frame_time p = 10 \<and> max_frame_time p = 20)
   \<and> (\<exists>p. calculate_profile (PerformanceMonitor_new 100 5 0 0 0) ''game'' = Inr p
       \<and> min_frame_time p = 0 \<and> max_frame_time p = 0)"
proof -
  have le: "(20 :: real) \<le> f64_MAX" "(10 :: real) \<le> f64_MAX" "(0 :: real) \<le> f64_MAX"
    by (simp_all add: f64_MAX_def)
  have a: "\<exists>p. calculate_profile
         ((PerformanceMonitor_new 100 5 0 0 0)
            \<lparr> history := [PerformanceMetrics_default \<lparr> frame_time_ms := 20 \<rparr>,
                          PerformanceMetrics_default,
                          PerformanceMetrics_default \<lparr> frame_time_ms := 10 \<rparr>] \<rparr>) ''game'' = Inr p
       \<and> min_frame_time p = 10 \<and> max_frame_time p = 20"
    using le calculate_profile_min_max [of "(PerformanceMonitor_new 100 5 0 0 0)
            \<lparr> history := [PerformanceMetrics_default \<lparr> frame_time_ms := 20 \<rparr>,
                          PerformanceMetrics_default,
                          PerformanceMetrics_default \<lparr> frame_time_ms := 10 \<rparr>] \<rparr>" "''game''"]
    by (simp add: PerformanceMonitor_new_def PerformanceMetrics_default_def) blast
  have b: "\<exists>p. calculate_profile (PerformanceMonitor_new 100 5 0 0 0) ''game'' = Inr p
       \<and> min_frame_time p = 0 \<and> max_frame_time p = 0"
    using calculate_profile_min_max [of "PerformanceMonitor_new 100 5 0 0 0" "''game''"]
    by (simp add: PerformanceMonitor_new_def PerformanceMetrics_default_def)
  show ?thesis using a b by (rule conjI)
qed

subsection \<open>Casts and sub-score ranges\<close>

lemma unat_f64_as_u8:
  "unat (f64_as_u8 x) = (if x < 0 then 0 else if 255 \<le> x then 255 else nat \<lfloor>x\<rfloor>)"
proof -
  have "unat (word_of_int \<lfloor>x\<rfloor> :: u8) = nat \<lfloor>x\<rfloor>" if "0 \<le> x" "x < 255"
  proof -
    have a: "0 \<le> \<lfloor>x\<rfloor>" using that by simp
    have b: "\<lfloor>x\<rfloor> < 256" using that by linarith
    have "uint (word_of_int \<lfloor>x\<rfloor> :: u8) = \<lfloor>x\<rfloor>"
      using a b by (simp add: uint_word_of_int)
    then show ?thesis by (simp add: unat_eq_nat_uint)
  qed
  then show ?thesis by (auto simp: f64_as_u8_def)
qed

lemma unat_f64_as_u8_mono: "x \<le> y \<Longrightarrow> unat (f64_as_u8 x) \<le> unat (f64_as_u8 y)"
proof -
  assume xy: "x \<le> y"
  have "nat \<lfloor>x\<rfloor> \<le> nat \<lfloor>y\<rfloor>" using xy by (simp add: floor_mono nat_mono)
  moreover have "nat \<lfloor>x\<rfloor> \<le> 255" if "x < 255" using that by linarith
  ultimately show ?thesis using xy by (auto simp: unat_f64_as_u8)
qed

lemma unat_f64_as_u8_le: "x \<le> real n \<Longrightarrow> n \<le> 255 \<Longrightarrow> unat (f64_as_u8 x) \<le> n"
proof -
  assume a: "x \<le> real n" "n \<le> 255"
  have "nat \<lfloor>x\<rfloor> \<le> n" using a by linarith
  then show ?thesis using a by (auto simp: unat_f64_as_u8)
qed

lemma unat_add_small:
  fixes w :: u8
  assumes "unat w \<le> 10"
  shows "unat (30 + w) = 30 + unat w" "unat (20 + w) = 20 + unat w"
proof -
  have "unat (30 :: u8) + unat w < 2 ^ LENGTH(8)" using assms by simp
  then have "unat (30 + w) = unat (30 :: u8) + unat w" by (simp only: unat_add_lem)
  then show "unat (30 + w) = 30 + unat w" by simp
  have "unat (20 :: u8) + unat w < 2 ^ LENGTH(8)" using assms by simp
  then have "unat (20 + w) = unat (20 :: u8) + unat w" by (simp only: unat_add_lem)
  then show "unat (20 + w) = 20 + unat w" by simp
qed

lemma unat_fps_score_le: "unat (fps_score fps) \<le> 40"
proof -
  have a: "unat (f64_as_u8 ((fps - 30) / 30 * 10)) \<le> 10" if "fps < 60"
    using that by (intro unat_f64_as_u8_le) auto
  have b: "unat (f64_as_u8 (fps / 30 * 30)) \<le> 30" if "fps < 30"
    using that by (intro unat_f64_as_u8_le) auto
  show ?thesis
    using a b unat_add_small(1) [of "f64_as_u8 ((fps - 30) / 30 * 10)"]
    by (auto simp: fps_score_def not_le)
qed

lemma fps_score_saturates: "60 \<le> fps \<Longrightarrow> fps_score fps = 40"
  by (simp add: fps_score_def)

lemma unat_stability_score_le: "unat (stability_score a) \<le> 30"
proof -
  have x: "unat (f64_as_u8 ((3333 / 100 - a) / (1666 / 100) * 10)) \<le> 10" if "1667 / 100 \<le> a"
    using that by (intro unat_f64_as_u8_le) auto
  have y: "unat (f64_as_u8 (3333 / 100 / a * 20)) \<le> 20" if "3333 / 100 \<le> a"
  proof (intro unat_f64_as_u8_le)
    have "0 < a" using that by simp
    then have "3333 / 100 / a \<le> 1" using that by (simp add: divide_le_eq)
    then show "3333 / 100 / a * 20 \<le> real 20" by simp
  qed simp
  show ?thesis
    using x y unat_add_small(2) [of "f64_as_u8 ((3333 / 100 - a) / (1666 / 100) * 10)"]
    by (auto simp: stability_score_def not_less)
qed

lemma unat_drop_penalty: "unat (drop_penalty n) = 3 * min n 10"
proof -
  have "min n 10 \<le> 10" by simp
  then have "min n 10 \<in> {0,1,2,3,4,5,6,7,8,9,10}" by (auto simp: le_Suc_eq numeral_eq_Suc)
  then show ?thesis unfolding drop_penalty_def by (elim insertE) (simp_all only: , simp_all)
qed

lemma unat_clamp_u8: "unat (clamp_u8 x 0 100) = min (unat x) 100"
  by (auto simp: clamp_u8_def word_less_nat_alt)

lemma unat_latency_score_le: "unat (latency_score l) \<le> 40"
proof -
  have a: "unat (f64_as_u8 ((100 - l) / 50 * 10)) \<le> 10" if "50 \<le> l"
    using that by (intro unat_f64_as_u8_le) auto
  have b: "unat (f64_as_u8 ((200 - l) / 150 * 30)) \<le> 20" if "100 \<le> l"
    using that by (intro unat_f64_as_u8_le) auto
  show ?thesis
    using a b unat_add_small(1) [of "f64_as_u8 ((100 - l) / 50 * 10)"]
    by (auto simp: latency_score_def not_less)
qed

lemma unat_jitter_score_le: "unat (jitter_score j) \<le> 30"
proof -
  have a: "unat (f64_as_u8 ((30 - j) / 20 * 10)) \<le> 10" if "10 \<le> j"
    using that by (intro unat_f64_as_u8_le) auto
  have b: "unat (f64_as_u8 (30 / j * 20)) \<le> 20" if "30 \<le> j"
  proof (intro unat_f64_as_u8_le)
    have "0 < j" using that by simp
    then have "30 / j \<le> 1" using that by (simp add: divide_le_eq)
    then show "30 / j * 20 \<le> real 20" by simp
  qed simp
  show ?thesis
    using a b unat_add_small(2) [of "f64_as_u8 ((30 - j) / 20 * 10)"]
    by (auto simp: jitter_score_def not_less)
qed

lemma unat_loss_score_le: "unat (loss_score r) \<le> 30"
proof -
  have a: "unat (f64_as_u8 ((5 - r) / 4 * 10)) \<le> 10" if "1 \<le> r"
    using that by (intro unat_f64_as_u8_le) auto
  have b: "unat (f64_as_u8 (5 / r * 20)) \<le> 20" if "5 \<le> r"
  proof (intro unat_f64_as_u8_le)
    have "0 < r" using that by simp
    then have "5 / r \<le> 1" using that by (simp add: divide_le_eq)
    then show "5 / r * 20 \<le> real 20" by simp
  qed simp
  show ?thesis
    using a b unat_add_small(2) [of "f64_as_u8 ((5 - r) / 4 * 10)"]
    by (auto simp: loss_score_def not_less)
qed

lemma quality_score_no_overflow:
  "quality_score_checked t = Inr (quality_score t)
   \<and> unat (quality_score t) =
       unat (latency_score (average_latency t)) + unat (jitter_score (average_jitter t))
       + unat (loss_score (packet_loss_rate t))
   \<and> unat (quality_score t) \<le> 100"
proof -
  define a where "a = latency_score (average_latency t)"
  define b where "b = jitter_score (average_jitter t)"
  define c where "c = loss_score (packet_loss_rate t)"
  have la: "unat a \<le> 40" unfolding a_def by (rule unat_latency_score_le)
  have lb: "unat b \<le> 30" unfolding b_def by (rule unat_jitter_score_le)
  have lc: "unat c \<le> 30" unfolding c_def by (rule unat_loss_score_le)
  have "unat a + unat b < 2 ^ LENGTH(8)" using la lb by simp
  then have ab: "unat (a + b) = unat a + unat b" by (simp only: unat_add_lem)
  have "unat (a + b) + unat c < 2 ^ LENGTH(8)" using ab la lb lc by simp
  then have "unat (a + b + c) = unat (a + b) + unat c" by (simp only: unat_add_lem)
  then have abc: "unat (a + b + c) = unat a + unat b + unat c"
    using ab by simp
  have q: "quality_score t = clamp_u8 (a + b + c) 0 100"
    by (simp add: quality_score_def a_def b_def c_def)
  have qc: "quality_score_checked t = Inr (clamp_u8 (a + b + c) 0 100)"
    using ab abc la lb lc
    by (simp add: quality_score_checked_def checked_add_def a_def [symmetric] b_def [symmetric]
        c_def [symmetric])
  show ?thesis
    unfolding q qc a_def [symmetric] b_def [symmetric] c_def [symmetric]
    using abc la lb lc by (simp add: unat_clamp_u8)
qed

lemma calculate_score_no_underflow:
  assumes "3 * min (length (detect_frame_drops (frame_tracker m) (3333 / 100))) 10
      \<le> unat (fps_score (current_fps (frame_tracker m)))
        + unat (stability_score (average_frame_time (frame_tracker m)))"
  shows "calculate_score_checked m = Inr (calculate_score m)
   \<and> uint (calculate_score m) =
       performance_score_spec (current_fps (frame_tracker m))
         (average_frame_time (frame_tracker m))
         (length (detect_frame_drops (frame_tracker m) (3333 / 100)))"
proof -
  define a where "a = fps_score (current_fps (frame_tracker m))"
  define b where "b = stability_score (average_frame_time (frame_tracker m))"
  define n where "n = length (detect_frame_drops (frame_tracker m) (3333 / 100))"
  define c where "c = drop_penalty n"
  have la: "unat a \<le> 40" unfolding a_def by (rule unat_fps_score_le)
  have lb: "unat b \<le> 30" unfolding b_def by (rule unat_stability_score_le)
  have uc: "unat c = 3 * min n 10" unfolding c_def by (rule unat_drop_penalty)
  have "unat a + unat b < 2 ^ LENGTH(8)" using la lb by simp
  then have ab: "unat (a + b) = unat a + unat b" by (simp only: unat_add_lem)
  have le: "unat c \<le> unat (a + b)"
    using assms unfolding ab uc a_def [symmetric] b_def [symmetric] n_def [symmetric] .
  then have "c \<le> a + b" by (simp add: word_le_nat_alt)
  then have abc: "unat (a + b - c) = unat (a + b) - unat c" by (rule unat_sub)
  have q: "calculate_score m = clamp_u8 (a + b - c) 0 100"
    by (simp add: calculate_score_def Let_def a_def b_def c_def n_def)
  have qc: "calculate_score_checked m = Inr (clamp_u8 (a + b - c) 0 100)"
    using ab le la lb
    by (simp add: calculate_score_checked_def Let_def checked_add_def checked_sub_def
        a_def [symmetric] b_def [symmetric] c_def [symmetric] n_def [symmetric])
  have "uint (clamp_u8 (a + b - c) 0 100) = int (min (unat a + unat b - unat c) 100)"
    by (simp only: uint_nat unat_clamp_u8 abc ab)
  also have "\<dots> = max 0 (min 100 (int (unat a) + int (unat b) - int (unat c)))"
    using le unfolding ab by arith
  also have "\<dots> = performance_score_spec (current_fps (frame_tracker m))
         (average_frame_time (frame_tracker m)) n"
    unfolding performance_score_spec_def uc a_def [symmetric] b_def [symmetric]
    by (simp only: of_nat_mult of_nat_numeral)
  finally show ?thesis unfolding q qc n_def by simp
qed

subsection \<open>Performance score\<close>

lemma scenario_slow_start_tracker:
  "frame_times (frame_tracker scenario_slow_start) = [40, 40, 40, 40, 40, 40, 40, 40, 40, 40]
   \<and> current_fps (frame_tracker scenario_slow_start) = 0"
  by (simp add: scenario_slow_start_def start_frame_def record_frame_def Let_def
      duration_since_def as_secs_f64_def PerformanceMonitor_new_def FrameTimeTracker_new_def
      from_millis_def push_bounded_def)

lemma scenario_stutter_tracker:
  "frame_times (frame_tracker scenario_stutter) =
     [100, 100, 100, 100, 100, 100, 100, 100, 100, 100]
   \<and> current_fps (frame_tracker scenario_stutter) = 10"
  by (simp add: scenario_stutter_def start_frame_def record_frame_def Let_def
      duration_since_def as_secs_f64_def PerformanceMonitor_new_def FrameTimeTracker_new_def
      from_millis_def push_bounded_def)

text \<open>
  Claim C1. \<open>quality_score\<close> never overflows and its value is at most 100
  (\<open>quality_score_no_overflow\<close>). \<open>calculate_score\<close> subtracts the drop penalty in \<open>u8\<close>
  before it clamps. After ten frames of 40 ms from a new monitor the FPS sub-score is 0,
  the stability sub-score is 16 and the drop penalty is 30: the subtraction underflows.
  With overflow checks it panics; without them it wraps to 242, which the clamp turns
  into 100.
\<close>

theorem calculate_score_underflow:
  "fps_score (current_fps (frame_tracker scenario_slow_start)) = 0
   \<and> stability_score (average_frame_time (frame_tracker scenario_slow_start)) = 16
   \<and> drop_penalty (length (detect_frame_drops (frame_tracker scenario_slow_start) (3333 / 100)))
       = 30
   \<and> (0 + 16 - 30 :: u8) = 242
   \<and> calculate_score_checked scenario_slow_start = Inl ArithmeticOverflow
   \<and> calculate_score scenario_slow_start = 100"
  by (simp add: calculate_score_checked_def calculate_score_def Let_def
      scenario_slow_start_tracker average_frame_time_def mean_def detect_frame_drops_def
      enumerate_eq_zip fps_score_def stability_score_def drop_penalty_def f64_as_u8_def
      checked_add_def checked_sub_def clamp_u8_def)

text \<open>
  Claim C2. The sub-scores have the ranges and the saturation of the claim
  (\<open>unat_fps_score_le\<close>, \<open>fps_score_saturates\<close>, \<open>unat_stability_score_le\<close>,
  \<open>unat_drop_penalty\<close>), and \<open>calculate_score\<close> is the score of the specification
  whenever the penalty does not exceed the sum of the two sub-scores
  (\<open>calculate_score_no_underflow\<close>). After ten frames of 100 ms from a new monitor the
  FPS is 10, the sub-scores are 10 and 6 and the penalty is 30: the score of the
  specification is 0, and \<open>calculate_score\<close> returns 100 (a panic with overflow checks).
\<close>

theorem calculate_score_differs_from_spec:
  "current_fps (frame_tracker scenario_stutter) = 10
   \<and> average_frame_time (frame_tracker scenario_stutter) = 100
   \<and> length (detect_frame_drops (frame_tracker scenario_stutter) (3333 / 100)) = 10
   \<and> performance_score_spec (current_fps (frame_tracker scenario_stutter))
        (average_frame_time (frame_tracker scenario_stutter))
        (length (detect_frame_drops (frame_tracker scenario_stutter) (3333 / 100))) = 0
   \<and> uint (calculate_score scenario_stutter) = 100
   \<and> calculate_score_checked scenario_stutter = Inl ArithmeticOverflow"
  by (simp add: calculate_score_checked_def calculate_score_def Let_def
      scenario_stutter_tracker average_frame_time_def mean_def detect_frame_drops_def
      enumerate_eq_zip fps_score_def stability_score_def drop_penalty_def f64_as_u8_def
      checked_add_def checked_sub_def clamp_u8_def performance_score_spec_def)

subsection \<open>Sub-scores of the quality score\<close>

lemma latency_score_antimono:
  assumes "a \<le> b"
  shows "latency_score b \<le> latency_score a"
proof -
  have m: "unat (f64_as_u8 ((100 - l) / 50 * 10)) \<le> 10" if "50 \<le> l" for l
    using that by (intro unat_f64_as_u8_le) auto
  have t: "unat (f64_as_u8 ((200 - l) / 150 * 30)) \<le> 20" if "100 \<le> l" for l
    using that by (intro unat_f64_as_u8_le) auto
  have mm: "unat (f64_as_u8 ((100 - b) / 50 * 10)) \<le> unat (f64_as_u8 ((100 - a) / 50 * 10))"
    using assms by (intro unat_f64_as_u8_mono) simp
  have tt: "unat (f64_as_u8 ((200 - b) / 150 * 30)) \<le> unat (f64_as_u8 ((200 - a) / 150 * 30))"
    using assms by (intro unat_f64_as_u8_mono) simp
  have "unat (latency_score b) \<le> unat (latency_score a)"
    using assms m [of a] m [of b] t [of b] mm tt
      unat_add_small(1) [of "f64_as_u8 ((100 - a) / 50 * 10)"]
      unat_add_small(1) [of "f64_as_u8 ((100 - b) / 50 * 10)"]
    by (auto simp: latency_score_def not_less)
  then show ?thesis by (simp add: word_le_nat_alt)
qed

lemma jitter_score_antimono:
  assumes "a \<le> b"
  shows "jitter_score b \<le> jitter_score a"
proof -
  have m: "unat (f64_as_u8 ((30 - l) / 20 * 10)) \<le> 10" if "10 \<le> l" for l
    using that by (intro unat_f64_as_u8_le) auto
  have t: "unat (f64_as_u8 (30 / l * 20)) \<le> 20" if "30 \<le> l" for l
  proof (intro unat_f64_as_u8_le)
    have "0 < l" using that by simp
    then have "30 / l \<le> 1" using that by (simp add: divide_le_eq)
    then show "30 / l * 20 \<le> real 20" by simp
  qed simp
  have mm: "unat (f64_as_u8 ((30 - b) / 20 * 10)) \<le> unat (f64_as_u8 ((30 - a) / 20 * 10))"
    using assms by (intro unat_f64_as_u8_mono) simp
  have tt: "unat (f64_as_u8 (30 / b * 20)) \<le> unat (f64_as_u8 (30 / a * 20))" if "30 \<le> a"
  proof (intro unat_f64_as_u8_mono)
    have "30 / b \<le> 30 / a" using that assms by (intro divide_left_mono) auto
    then show "30 / b * 20 \<le> 30 / a * 20" by simp
  qed
  have "unat (jitter_score b) \<le> unat (jitter_score a)"
    using assms m [of a] m [of b] t [of b] mm tt
      unat_add_small(2) [of "f64_as_u8 ((30 - a) / 20 * 10)"]
      unat_add_small(2) [of "f64_as_u8 ((30 - b) / 20 * 10)"]
    by (auto simp: jitter_score_def not_less)
  then show ?thesis by (simp add: word_le_nat_alt)
qed

lemma loss_score_antimono:
  assumes "a \<le> b"
  shows "loss_score b \<le> loss_score a"
proof -
  have m: "unat (f64_as_u8 ((5 - l) / 4 * 10)) \<le> 10" if "1 \<le> l" for l
    using that by (intro unat_f64_as_u8_le) auto
  have t: "unat (f64_as_u8 (5 / l * 20)) \<le> 20" if "5 \<le> l" for l
  proof (intro unat_f64_as_u8_le)
    have "0 < l" using that by simp
    then have "5 / l \<le> 1" using that by (simp add: divide_le_eq)
    then show "5 / l * 20 \<le> real 20" by simp
  qed simp
  have mm: "unat (f64_as_u8 ((5 - b) / 4 * 10)) \<le> unat (f64_as_u8 ((5 - a) / 4 * 10))"
    using assms by (intro unat_f64_as_u8_mono) simp
  have tt: "unat (f64_as_u8 (5 / b * 20)) \<le> unat (f64_as_u8 (5 / a * 20))" if "5 \<le> a"
  proof (intro unat_f64_as_u8_mono)
    have "5 / b \<le> 5 / a" using that assms by (intro divide_left_mono) auto
    then show "5 / b * 20 \<le> 5 / a * 20" by simp
  qed
  have "unat (loss_score b) \<le> unat (loss_score a)"
    using assms m [of a] m [of b] t [of b] mm tt
      unat_add_small(2) [of "f64_as_u8 ((5 - a) / 4 * 10)"]
      unat_add_small(2) [of "f64_as_u8 ((5 - b) / 4 * 10)"]
    by (auto simp: loss_score_def not_less)
  then show ?thesis by (simp add: word_le_nat_alt)
qed

lemma f64_as_u8_small: "0 \<le> x \<Longrightarrow> x < 1 \<Longrightarrow> f64_as_u8 x = 0"
proof -
  assume "0 \<le> x" "x < 1"
  then have "\<lfloor>x\<rfloor> = 0" by linarith
  then show ?thesis using \<open>0 \<le> x\<close> \<open>x < 1\<close> by (simp add: f64_as_u8_def)
qed

lemma latency_score_below_100: "95 < l \<Longrightarrow> l < 100 \<Longrightarrow> latency_score l = 30"
  using f64_as_u8_small [of "(100 - l) / 50 * 10"] by (simp add: latency_score_def)

lemma jitter_score_below_30: "28 < j \<Longrightarrow> j < 30 \<Longrightarrow> jitter_score j = 20"
  using f64_as_u8_small [of "(30 - j) / 20 * 10"] by (simp add: jitter_score_def)

lemma loss_score_below_5: "46 / 10 < r \<Longrightarrow> r < 5 \<Longrightarrow> loss_score r = 20"
  using f64_as_u8_small [of "(5 - r) / 4 * 10"] by (simp add: loss_score_def)

lemma sub_scores_at_breakpoints:
  "latency_score 50 = 40" "latency_score 100 = 20" "jitter_score 10 = 30" "jitter_score 30 = 20"
  "loss_score 1 = 30" "loss_score 5 = 20" "latency_score (999 / 10) = 30"
  by (simp_all add: latency_score_def jitter_score_def loss_score_def f64_as_u8_def)

lemma latency_score_not_continuous: "\<not> isCont (\<lambda>l. real (unat (latency_score l))) 100"
proof
  assume "isCont (\<lambda>l. real (unat (latency_score l))) 100"
  then have "\<forall>r>0. \<exists>d>0. \<forall>x. x \<noteq> 100 \<and> \<bar>x - 100\<bar> < d \<longrightarrow>
      \<bar>real (unat (latency_score x)) - real (unat (latency_score 100))\<bar> < r"
    unfolding isCont_def LIM_def dist_real_def .
  then have "\<exists>d>0. \<forall>x. x \<noteq> 100 \<and> \<bar>x - 100\<bar> < d \<longrightarrow>
      \<bar>real (unat (latency_score x)) - real (unat (latency_score 100))\<bar> < 1"
    by (rule allE [of _ 1]) simp
  then obtain d where d: "0 < d"
    "\<And>x. x \<noteq> 100 \<Longrightarrow> \<bar>x - 100\<bar> < d \<Longrightarrow>
       \<bar>real (unat (latency_score x)) - real (unat (latency_score 100))\<bar> < 1"
    by blast
  define x where "x = 100 - min d 1 / 2"
  have x: "95 < x" "x < 100" "\<bar>x - 100\<bar> < d" using d(1) by (auto simp: x_def)
  have "latency_score x = 30" using x by (intro latency_score_below_100)
  moreover have "latency_score 100 = 20" by (rule sub_scores_at_breakpoints)
  ultimately show False using d(2) [of x] x by simp
qed

text \<open>
  Claim C3. Each sub-score of \<open>quality_score\<close> is non-increasing in its metric
  (\<open>latency_score_antimono\<close>, \<open>jitter_score_antimono\<close>, \<open>loss_score_antimono\<close>), and at the
  breakpoints 50 (latency), 10 and 30 (jitter), 1 and 5 (loss) the value at the breakpoint
  is the value just below it (\<open>sub_scores_at_breakpoints\<close>, \<open>jitter_score_below_30\<close>,
  \<open>loss_score_below_5\<close>). At the latency breakpoint 100 the two branches do not meet: the
  score is 30 for every latency from above 95 to below 100, and 20 at 100.
\<close>

theorem latency_score_jump_at_100:
  "latency_score (999 / 10) = 30
   \<and> latency_score 100 = 20
   \<and> jitter_score (299 / 10) = 20 \<and> jitter_score 30 = 20
   \<and> loss_score (49 / 10) = 20 \<and> loss_score 5 = 20
   \<and> \<not> isCont (\<lambda>l. real (unat (latency_score l))) 100"
  using latency_score_not_continuous
  by (simp add: latency_score_def jitter_score_def loss_score_def f64_as_u8_def)

end
